theory Spec2Isabelle
  imports Main
begin

section \<open>Python strings\<close>

text \<open>
  A Python \<^verbatim>\<open>str\<close> is a sequence of Unicode code points and \<^verbatim>\<open>len\<close> counts code
  points, so a string is a list of code points. \<open>ascii\<close> turns an ASCII literal into
  such a list; the non-ASCII characters of the source's literals are written as numbers.
\<close>

type_synonym pystr = "nat list"

definition ascii :: "string \<Rightarrow> pystr" where
  "ascii s = map of_char s"

definition NL :: nat where
  "NL = 10"

text \<open>\<^verbatim>\<open>str.isspace\<close> for one code point: the Unicode whitespace characters.\<close>

definition isspace :: "nat \<Rightarrow> bool" where
  "isspace c \<longleftrightarrow>
     (9 \<le> c \<and> c \<le> 13) \<or> (28 \<le> c \<and> c \<le> 32) \<or> c = 133 \<or> c = 160 \<or> c = 5760 \<or>
     (8192 \<le> c \<and> c \<le> 8202) \<or> c = 8232 \<or> c = 8233 \<or> c = 8239 \<or> c = 8287 \<or> c = 12288"

definition lstrip :: "pystr \<Rightarrow> pystr" where
  "lstrip s = dropWhile isspace s"

definition strip :: "pystr \<Rightarrow> pystr" where
  "strip s = rev (dropWhile isspace (rev (dropWhile isspace s)))"

definition startswith :: "pystr \<Rightarrow> pystr \<Rightarrow> bool" where
  "startswith s p \<longleftrightarrow> take (length p) s = p"

text \<open>\<^verbatim>\<open>sep.join(xs)\<close>.\<close>

fun join :: "pystr \<Rightarrow> pystr list \<Rightarrow> pystr" where
  "join sep [] = []"
| "join sep [x] = x"
| "join sep (x # y # ys) = x @ sep @ join sep (y # ys)"

text \<open>\<^verbatim>\<open>str(n)\<close> for an integer: decimal digits, with a minus sign when negative.\<close>

function str_nat :: "nat \<Rightarrow> pystr" where
  "str_nat n = (if n < 10 then [48 + n] else str_nat (n div 10) @ [48 + n mod 10])"
  by pat_completeness auto
termination
  by (relation "measure id") auto

declare str_nat.simps [simp del]

definition str_int :: "int \<Rightarrow> pystr" where
  "str_int i = (if i < 0 then 45 # str_nat (nat (- i)) else str_nat (nat i))"

text \<open>
  Slices \<^verbatim>\<open>s[:c]\<close> and \<^verbatim>\<open>s[c:]\<close> for an integer \<open>c\<close>: a negative bound counts from the
  end, and every bound is clamped to the string.
\<close>

definition py_take :: "pystr \<Rightarrow> int \<Rightarrow> pystr" where
  "py_take s c = (if c < 0 then take (nat (int (length s) + c)) s else take (nat c) s)"

definition py_drop :: "pystr \<Rightarrow> int \<Rightarrow> pystr" where
  "py_drop s c = (if c < 0 then drop (nat (int (length s) + c)) s else drop (nat c) s)"

text \<open>
  \<^verbatim>\<open>s.rfind("\n", 0, e)\<close>: the highest index below the (clamped) end \<open>e\<close> that holds a
  newline, and \<open>-1\<close> when there is none. \<open>rfind_scan\<close> walks the slice from the left and
  remembers the last newline seen.
\<close>

fun rfind_scan :: "pystr \<Rightarrow> nat \<Rightarrow> int \<Rightarrow> int" where
  "rfind_scan [] i best = best"
| "rfind_scan (c # cs) i best = rfind_scan cs (Suc i) (if c = NL then int i else best)"

definition rfind_nl :: "pystr \<Rightarrow> int \<Rightarrow> int" where
  "rfind_nl s e =
     (let n = int (length s);
          e' = (if e < 0 then max 0 (n + e) else min e n)
      in rfind_scan (take (nat e') s) 0 (- 1))"

section \<open>chunk_text\<close>

text \<open>
  \<^verbatim>\<open>
  def chunk_text(text, limit):
      chunks = []; s = text
      while s:
          if len(s) <= limit:
              chunks.append(s); break
          cut = s.rfind("\n", 0, limit)
          if cut <= 0: cut = limit
          chunks.append(s[:cut])
          s = s[cut:].lstrip()
      return chunks
  \<close>
  For \<open>limit \<le> 0\<close> the loop can run forever (with \<open>limit = 0\<close> it appends empty chunks
  and never shortens \<open>s\<close>), so the function is partial: \<open>None\<close> is "does not return".
\<close>

partial_function (option) chunk_text :: "pystr \<Rightarrow> int \<Rightarrow> pystr list option" where
  "chunk_text s limit =
     (if s = [] then Some []
      else if int (length s) \<le> limit then Some [s]
      else (let c0 = rfind_nl s limit;
                cut = (if c0 \<le> 0 then limit else c0)
            in Option.bind (chunk_text (lstrip (py_drop s cut)) limit)
                 (\<lambda>rest. Some (py_take s cut # rest))))"

text \<open>
  The cut rule in words: \<open>k\<close> is the index of the last newline among the indices
  \<open>1, \<dots>, B - 1\<close> of \<open>s\<close> when there is one, and \<open>B\<close> otherwise. Index \<open>0\<close> is left
  out: the source replaces a result \<open>cut \<le> 0\<close> by the limit.
\<close>

definition is_cut :: "pystr \<Rightarrow> nat \<Rightarrow> nat \<Rightarrow> bool" where
  "is_cut s B k \<longleftrightarrow>
     (if \<exists>i\<in>{1..<B}. s ! i = NL
      then 1 \<le> k \<and> k < B \<and> s ! k = NL \<and> (\<forall>j\<in>{k<..<B}. s ! j \<noteq> NL)
      else k = B)"

text \<open>
  What the fragments \<open>cs\<close> of a text \<open>T\<close> satisfy: none is empty, none is longer than
  the budget, and putting a run of whitespace \<open>ws ! i\<close> back after each fragment
  \<open>cs ! i\<close> gives \<open>T\<close> again.
\<close>

definition chunks_ok :: "pystr \<Rightarrow> int \<Rightarrow> pystr list \<Rightarrow> bool" where
  "chunks_ok T B cs \<longleftrightarrow>
     (\<forall>c\<in>set cs. c \<noteq> [] \<and> int (length c) \<le> B) \<and>
     (\<exists>ws. length ws = length cs \<and> (\<forall>w\<in>set ws. \<forall>x\<in>set w. isspace x) \<and>
        concat (map2 (@) cs ws) = T)"

section \<open>The record store\<close>

text \<open>
  One row of the table \<^verbatim>\<open>pending\<close>, a field per column; \<open>rid\<close> is the column \<^verbatim>\<open>id\<close>.
  The column \<^verbatim>\<open>labels\<close> holds the JSON text of a list of strings
  (\<^verbatim>\<open>json.dumps\<close> on insert, \<^verbatim>\<open>json.loads\<close> on read); the model keeps the list.
  The values of the \<^verbatim>\<open>REAL\<close> column \<^verbatim>\<open>amount\<close> are Python floats: their type is the
  parameter \<open>'f\<close>, and what Python does with a float is a parameter too (\<open>pylib\<close> below).
\<close>

record 'f row =
  rid :: int
  source :: pystr
  key :: pystr
  title :: pystr
  url :: pystr
  repo :: pystr
  labels :: "pystr list"
  language :: pystr
  amount :: "'f option"
  currency :: "pystr option"
  created_at :: int
  notified :: int

text \<open>A value stored (as JSON) in the table \<^verbatim>\<open>meta\<close>.\<close>

datatype json = JList "pystr list" | JInt int

text \<open>
  The database behind a connection: the rows of \<^verbatim>\<open>pending\<close> in insertion order and the
  table \<^verbatim>\<open>meta\<close>. \<^verbatim>\<open>db()\<close> opens the file and creates missing tables and columns; it
  touches no row, and failures of SQLite itself are not part of the model.
\<close>

record 'f store =
  pending :: "'f row list"
  meta :: "pystr \<rightharpoonup> json"

definition meta_get :: "'f store \<Rightarrow> pystr \<Rightarrow> json option" where
  "meta_get conn k = meta conn k"

definition meta_set :: "'f store \<Rightarrow> pystr \<Rightarrow> json \<Rightarrow> 'f store" where
  "meta_set conn k v = conn\<lparr>meta := (meta conn)(k \<mapsto> v)\<rparr>"

text \<open>
  \<^verbatim>\<open>id INTEGER PRIMARY KEY AUTOINCREMENT\<close>: one more than the largest id ever used.
  The program deletes no row, so that is the largest id in the table.
\<close>

definition next_rowid :: "'f row list \<Rightarrow> int" where
  "next_rowid rows = fold max (map rid rows) 0 + 1"

text \<open>
  \<^verbatim>\<open>
  def upsert_pending(conn, source, key, title, url, repo, labels, language,
                     amount=None, currency=None, created_at=None):
      cur.execute("SELECT 1 FROM pending WHERE source=? AND key=?", (source, key))
      if cur.fetchone(): return False
      conn.execute("INSERT INTO pending(...,created_at,notified) VALUES(...,?,0)",
                   (..., json.dumps(labels or []), language or "",
                    amount, currency, created_at or int(time.time())))
      conn.commit()
      return True
  \<close>
  \<open>now\<close> is what \<^verbatim>\<open>int(time.time())\<close> gives at the call. \<^verbatim>\<open>created_at or ...\<close> takes the
  clock for \<^verbatim>\<open>None\<close> and for \<open>0\<close>.
\<close>

definition upsert_pending ::
  "'f store \<Rightarrow> int \<Rightarrow> pystr \<Rightarrow> pystr \<Rightarrow> pystr \<Rightarrow> pystr \<Rightarrow> pystr \<Rightarrow> pystr list \<Rightarrow> pystr \<Rightarrow>
   'f option \<Rightarrow> pystr option \<Rightarrow> int option \<Rightarrow> 'f store \<times> bool" where
  "upsert_pending conn now src k ttl u rp labs lang amt cur cat =
     (if \<exists>r\<in>set (pending conn). source r = src \<and> key r = k then (conn, False)
      else (conn\<lparr>pending := pending conn @
              [\<lparr>rid = next_rowid (pending conn), source = src, key = k, title = ttl, url = u,
                repo = rp, labels = labs, language = lang, amount = amt, currency = cur,
                created_at = (case cat of None \<Rightarrow> now | Some c \<Rightarrow> if c = 0 then now else c),
                notified = 0\<rparr>]\<rparr>, True))"

text \<open>\<^verbatim>\<open>LIMIT n\<close>: SQLite reads a negative \<open>n\<close> as no limit.\<close>

definition sql_limit :: "int \<Rightarrow> 'a list \<Rightarrow> 'a list" where
  "sql_limit n xs = (if n < 0 then xs else take (nat n) xs)"

text \<open>
  The query of \<^verbatim>\<open>digest\<close>:
  \<^verbatim>\<open>
  SELECT ... FROM pending WHERE created_at>=? AND notified=0
  ORDER BY created_at DESC LIMIT ?
  \<close>
  SQLite answers it by walking the index \<^verbatim>\<open>idx_pending_time\<close> on \<^verbatim>\<open>created_at\<close> backwards,
  so rows of equal \<^verbatim>\<open>created_at\<close> come by descending \<^verbatim>\<open>id\<close>: the rows are ordered by
  \<^verbatim>\<open>id\<close>, largest first, and then, keeping that order among equals, by \<^verbatim>\<open>created_at\<close>,
  largest first.
\<close>

definition select_pending :: "'f store \<Rightarrow> int \<Rightarrow> int \<Rightarrow> 'f row list" where
  "select_pending conn since lim =
     sql_limit lim (sort_key (\<lambda>r. - created_at r) (sort_key (\<lambda>r. - rid r)
       (filter (\<lambda>r. since \<le> created_at r \<and> notified r = 0) (pending conn))))"

text \<open>\<^verbatim>\<open>UPDATE pending SET notified=1 WHERE id=?\<close>, and \<^verbatim>\<open>executemany\<close> over the ids.\<close>

definition update_notified :: "int \<Rightarrow> 'f row list \<Rightarrow> 'f row list" where
  "update_notified i rows = map (\<lambda>r. if rid r = i then r\<lparr>notified := 1\<rparr> else r) rows"

definition mark_notified :: "int list \<Rightarrow> 'f store \<Rightarrow> 'f store" where
  "mark_notified ids conn = conn\<lparr>pending := fold update_notified ids (pending conn)\<rparr>"

section \<open>Configuration, exceptions and the outside world\<close>

text \<open>The module-level settings read from the environment.\<close>

record config =
  SLACK_BOT_TOKEN :: pystr
  SLACK_WEBHOOK_URL :: pystr
  USE_PROFILE_LANGS :: bool
  STATIC_LANGUAGES :: "pystr list"
  WINDOW_MINUTES :: int
  DIGEST_LOOKBACK_MIN :: int
  DIGEST_MIN_COUNT :: int
  MAX_ITEMS_IN_DIGEST :: int
  MAX_SLACK_CHARS :: int
  POST_LONG_AS_THREAD :: bool
  WRITE_CSV :: bool
  CSV_DIR :: pystr
  UPLOAD_CSV_TO_SLACK :: bool

text \<open>
  The exceptions a call can raise. \<open>KeyboardInterrupt\<close> is no \<^verbatim>\<open>Exception\<close>.
  \<open>TimestampError\<close> stands for what \<^verbatim>\<open>datetime.fromtimestamp\<close> raises on a time it cannot
  convert: \<^verbatim>\<open>ValueError\<close>, \<^verbatim>\<open>OverflowError\<close> or \<^verbatim>\<open>OSError\<close>, depending on how far out of
  range the time is.
\<close>

datatype exn =
  HTTPError | ConnectionError | Timeout | KeyError | ValueError | TypeError | OSError
  | TimestampError | KeyboardInterrupt

definition is_Exception :: "exn \<Rightarrow> bool" where
  "is_Exception e \<longleftrightarrow> e \<noteq> KeyboardInterrupt"

text \<open>
  What Python's float formatting, float parsing and \<^verbatim>\<open>repr\<close> of a dict do is not
  modelled but taken as given: \<open>fmt0 x\<close> is \<^verbatim>\<open>f"{x:.0f}"\<close>, \<open>float_of_str s\<close> is
  \<^verbatim>\<open>float(s)\<close> (\<open>None\<close> when it raises \<^verbatim>\<open>ValueError\<close>) and \<open>repr_dict kvs\<close> is
  \<^verbatim>\<open>str(dict(kvs))\<close>.
\<close>

record 'f pylib =
  fmt0 :: "'f \<Rightarrow> pystr"
  float_of_str :: "pystr \<Rightarrow> 'f option"
  repr_dict :: "(pystr \<times> nat) list \<Rightarrow> pystr"

text \<open>The JSON answer of \<^verbatim>\<open>chat.postMessage\<close>, as far as \<^verbatim>\<open>digest\<close> reads it.\<close>

record slack_response =
  ok :: bool
  ts :: "pystr option"
  message_ts :: "pystr option"

text \<open>
  The outside world of one \<^verbatim>\<open>digest\<close> run: what each call that leaves the process gives.
  \<open>Inl e\<close> (or \<open>Some e\<close>) is the call raising \<open>e\<close>.
  \<^item> \<open>bot_result\<close>: \<^verbatim>\<open>requests.post\<close> and \<^verbatim>\<open>r.json()\<close> in \<^verbatim>\<open>post_slack_bot\<close> (an answer that is
    not JSON is \<open>ok = False\<close>);
  \<^item> \<open>thread_result i\<close>: the \<open>i\<close>-th call of \<^verbatim>\<open>post_slack_thread\<close>, whose answer is not read;
  \<^item> \<open>webhook_result\<close>: status code and body of the webhook's answer;
  \<^item> \<open>csv_result\<close>: \<^verbatim>\<open>write_csv\<close>, the path it wrote;
  \<^item> \<open>upload_result\<close>: \<^verbatim>\<open>upload_file_to_slack\<close>, whose answer is not read.
\<close>

record digest_env =
  bot_result :: "exn + slack_response"
  thread_result :: "nat \<Rightarrow> exn option"
  webhook_result :: "exn + int \<times> pystr"
  csv_result :: "exn + pystr"
  upload_result :: "exn option"

text \<open>
  What a run did to the outside: the texts posted, the file written, the file uploaded.
  \<open>CsvWrite\<close> is recorded when \<^verbatim>\<open>write_csv\<close> returned.
\<close>

datatype 'f event =
  BotPost pystr
  | ThreadPost pystr pystr
  | WebhookPost pystr
  | CsvWrite "'f row list" pystr
  | Upload pystr

section \<open>The digest text\<close>

definition two_digits :: "nat \<Rightarrow> pystr" where
  "two_digits n = [48 + n div 10, 48 + n mod 10]"

text \<open>
  \<^verbatim>\<open>datetime.fromtimestamp(t, timezone.utc).strftime("%H:%MZ")\<close>; the conversion raises
  outside the years 1 to 9999.
\<close>

definition utc_hhmm :: "int \<Rightarrow> pystr option" where
  "utc_hhmm t =
     (if - 62135596800 \<le> t \<and> t \<le> 253402300799
      then Some (two_digits (nat (t mod 86400 div 3600)) @ ascii '':'' @
                 two_digits (nat (t mod 3600 div 60)) @ ascii ''Z'')
      else None)"

text \<open>\<^verbatim>\<open>Counter(xs)\<close>: the distinct elements in order of first occurrence, with counts.\<close>

definition counter :: "pystr list \<Rightarrow> (pystr \<times> nat) list" where
  "counter xs = map (\<lambda>k. (k, count_list xs k)) (rev (remdups (rev xs)))"

text \<open>\<^verbatim>\<open>most_common(n)\<close>: by count, largest first, ties in order of first occurrence.\<close>

definition most_common :: "nat \<Rightarrow> (pystr \<times> nat) list \<Rightarrow> (pystr \<times> nat) list" where
  "most_common n kvs = take n (sort_key (\<lambda>kv. - int (snd kv)) kvs)"

text \<open>
  The loop over the labels in \<^verbatim>\<open>bullet\<close>:
  \<^verbatim>\<open>
  for lab in r["labels"]:
      if lab.startswith("USD "):
          try: amount = f"${float(lab.split(' ',1)[1]):.0f}"; break
          except Exception: pass
  \<close>
  A label that starts with \<^verbatim>\<open>"USD "\<close> has its first space at index 3, so the second part
  of the split is the label from index 4 on.
\<close>

fun label_amount :: "'f pylib \<Rightarrow> pystr list \<Rightarrow> pystr" where
  "label_amount lib [] = []"
| "label_amount lib (lab # labs) =
     (if startswith lab (ascii ''USD '')
      then (case float_of_str lib (drop 4 lab) of
              Some x \<Rightarrow> 36 # fmt0 lib x
            | None \<Rightarrow> label_amount lib labs)
      else label_amount lib labs)"

text \<open>
  The amount prefix of \<^verbatim>\<open>bullet\<close>: from the column \<^verbatim>\<open>amount\<close> when it is not \<^verbatim>\<open>None\<close>,
  else from the labels when there are any.
\<close>

definition amount_prefix :: "'f pylib \<Rightarrow> 'f row \<Rightarrow> pystr" where
  "amount_prefix lib r =
     (case amount r of
        Some a \<Rightarrow> 36 # fmt0 lib a
      | None \<Rightarrow> if labels r \<noteq> [] then label_amount lib (labels r) else [])"

text \<open>
  \<^verbatim>\<open>
  repo = r.get("repo",""); title = r.get("title",""); url = r.get("url","")
  tstr = datetime.fromtimestamp(r["created_at"], timezone.utc).strftime("%H:%MZ")
  amt = f"{amount} \<emdash> " if amount else ""; rep = f"{repo} \<emdash> " if repo else ""
  return f"\<bullet> {amt}{rep}{title}\n  {url} ({tstr})"
  \<close>
\<close>

definition bullet :: "'f pylib \<Rightarrow> 'f row \<Rightarrow> exn + pystr" where
  "bullet lib r =
     (let amount_s = amount_prefix lib r in
      case utc_hhmm (created_at r) of
        None \<Rightarrow> Inl TimestampError
      | Some tstr \<Rightarrow>
          (let amt = (if amount_s \<noteq> [] then amount_s @ [32, 8212, 32] else []);
               rep = (if repo r \<noteq> [] then repo r @ [32, 8212, 32] else [])
           in Inr ([8226, 32] @ amt @ rep @ title r @ [NL, 32, 32] @ url r @
                   ascii '' ('' @ tstr @ ascii '')'')))"

text \<open>The bullets of all rows, in order; the first one that raises ends the rendering.\<close>

fun bullets_of :: "'f pylib \<Rightarrow> 'f row list \<Rightarrow> exn + pystr list" where
  "bullets_of lib [] = Inr []"
| "bullets_of lib (r # rs) =
     (case bullet lib r of
        Inl e \<Rightarrow> Inl e
      | Inr b \<Rightarrow> (case bullets_of lib rs of Inl e \<Rightarrow> Inl e | Inr bs \<Rightarrow> Inr (b # bs)))"

text \<open>The header line and the two summary lines, up to the blank line before the bullets.\<close>

definition digest_head :: "'f pylib \<Rightarrow> 'f row list \<Rightarrow> int \<Rightarrow> pystr" where
  "digest_head lib rows lookback_min =
     (let count = length rows;
          header = [128142] @ ascii '' Bounty digest '' @ [8212] @ ascii '' last '' @
                   str_int lookback_min @ ascii '' min '' @ [183, 32] @ str_nat count @
                   ascii '' item'' @ (if count \<noteq> 1 then ascii ''s'' else []);
          by_source = counter (map source rows);
          by_repo = counter (filter (\<lambda>x. x \<noteq> []) (map repo rows));
          top_repos = (if by_repo \<noteq> []
                       then join (ascii '', '')
                              (map (\<lambda>kv. fst kv @ ascii '' ('' @ str_nat (snd kv) @ ascii '')'')
                                 (most_common 5 by_repo))
                       else [8212])
      in header @ [NL] @ ascii ''Sources: '' @ repr_dict lib by_source @ [NL] @
         ascii ''Top repos: '' @ top_repos @ [NL, NL])"

text \<open>
  \<^verbatim>\<open>
  bullets = "\n".join(bullet(r) for r in rows)
  body = f"{header}\nSources: {dict(by_source)}\nTop repos: {top_repos}\n\n{bullets}"
  if len(body) <= MAX_SLACK_CHARS:
      return body, None
  short = f"{header}\nSources: ...\nTop repos: {top_repos}\n\n(Details in thread ...)"
  return short, bullets
  \<close>
\<close>

definition make_digest_text ::
  "'f pylib \<Rightarrow> config \<Rightarrow> 'f row list \<Rightarrow> int \<Rightarrow> exn + pystr \<times> pystr option" where
  "make_digest_text lib cfg rows lookback_min =
     (case bullets_of lib rows of
        Inl e \<Rightarrow> Inl e
      | Inr bs \<Rightarrow>
          (let bullets = join [NL] bs;
               body = digest_head lib rows lookback_min @ bullets
           in if int (length body) \<le> MAX_SLACK_CHARS cfg then Inr (body, None)
              else Inr (digest_head lib rows lookback_min @ ascii ''(Details in thread '' @
                        [10549, 65039] @ ascii '')'', Some bullets)))"

section \<open>Slack\<close>

text \<open>
  \<^verbatim>\<open>post_slack_bot\<close>: without a bot token no request is made and the answer is
  \<^verbatim>\<open>{"ok": False}\<close>.
\<close>

definition post_slack_bot :: "config \<Rightarrow> digest_env \<Rightarrow> pystr \<Rightarrow> 'f event list \<times> (exn + slack_response)" where
  "post_slack_bot cfg env text =
     (if SLACK_BOT_TOKEN cfg = [] then ([], Inr \<lparr>ok = False, ts = None, message_ts = None\<rparr>)
      else ([BotPost text], bot_result env))"

text \<open>
  \<^verbatim>\<open>post_slack_webhook\<close>: accepted when the status is 200 and the stripped body is
  \<^verbatim>\<open>"ok"\<close> or empty.
\<close>

definition post_slack_webhook :: "config \<Rightarrow> digest_env \<Rightarrow> pystr \<Rightarrow> 'f event list \<times> (exn + bool)" where
  "post_slack_webhook cfg env text =
     (if SLACK_WEBHOOK_URL cfg = [] then ([], Inr False)
      else ([WebhookPost text],
            (case webhook_result env of
               Inl e \<Rightarrow> Inl e
             | Inr (status, body) \<Rightarrow>
                 Inr (status = 200 \<and> (strip body = ascii ''ok'' \<or> strip body = [])))))"

text \<open>
  \<^verbatim>\<open>upload_file_to_slack\<close>: nothing is sent without a bot token or with the upload
  switched off.
\<close>

definition upload_file_to_slack :: "config \<Rightarrow> digest_env \<Rightarrow> pystr \<Rightarrow> 'f event list \<times> exn option" where
  "upload_file_to_slack cfg env path =
     (if \<not> (SLACK_BOT_TOKEN cfg \<noteq> [] \<and> UPLOAD_CSV_TO_SLACK cfg) then ([], None)
      else ([Upload path], upload_result env))"

text \<open>
  The loop over the chunks:
  \<^verbatim>\<open>
  for i, chunk in enumerate(chunk_text(thread_details, MAX_SLACK_CHARS)):
      prefix = "" if i == 0 else "(cont.)\n"
      post_slack_thread(thread_ts, prefix + chunk)
  \<close>
  A call that raises ends the loop (and \<^verbatim>\<open>digest\<close>).
\<close>

fun post_chunks :: "digest_env \<Rightarrow> pystr \<Rightarrow> nat \<Rightarrow> pystr list \<Rightarrow> 'f event list \<times> exn option" where
  "post_chunks env tts i [] = ([], None)"
| "post_chunks env tts i (chunk # rest) =
     (let text = (if i = 0 then [] else ascii ''(cont.)'' @ [NL]) @ chunk in
      case thread_result env i of
        Some e \<Rightarrow> ([ThreadPost tts text], Some e)
      | None \<Rightarrow> (case post_chunks env tts (Suc i) rest of
                   (evs, r) \<Rightarrow> (ThreadPost tts text # evs, r)))"

text \<open>Truth value of an optional string: \<^verbatim>\<open>None\<close> and \<^verbatim>\<open>""\<close> are false.\<close>

definition truthy :: "pystr option \<Rightarrow> bool" where
  "truthy x \<longleftrightarrow> (case x of None \<Rightarrow> False | Some s \<Rightarrow> s \<noteq> [])"

section \<open>digest\<close>

text \<open>
  The header post and the thread replies:
  \<^verbatim>\<open>
  res = post_slack_bot(text)
  posted, thread_ts = False, None
  if res.get("ok"):
      posted = True
      thread_ts = res.get("ts") or (res.get("message", {}) or {}).get("ts")
      if thread_details and POST_LONG_AS_THREAD and thread_ts:
          for i, chunk in enumerate(chunk_text(thread_details, MAX_SLACK_CHARS)): ...
  \<close>
  The result is the value of \<open>posted\<close>, or the exception raised; \<open>None\<close> when
  \<open>chunk_text\<close> does not return.
\<close>

definition primary_phase ::
  "config \<Rightarrow> digest_env \<Rightarrow> pystr \<Rightarrow> pystr option \<Rightarrow> ('f event list \<times> (exn + bool)) option" where
  "primary_phase cfg env text thread_details =
     (case post_slack_bot cfg env text of
        (evs, Inl e) \<Rightarrow> Some (evs, Inl e)
      | (evs, Inr res) \<Rightarrow>
          if ok res then
            (let thread_ts = (if truthy (ts res) then ts res else message_ts res) in
             if truthy thread_details \<and> POST_LONG_AS_THREAD cfg \<and> truthy thread_ts then
               (case chunk_text (the thread_details) (MAX_SLACK_CHARS cfg) of
                  None \<Rightarrow> None
                | Some chunks \<Rightarrow>
                    (case post_chunks env (the thread_ts) 0 chunks of
                       (evs2, None) \<Rightarrow> Some (evs @ evs2, Inr True)
                     | (evs2, Some e) \<Rightarrow> Some (evs @ evs2, Inl e)))
             else Some (evs, Inr True))
          else Some (evs, Inr False))"

text \<open>
  \<^verbatim>\<open>
  if not posted and SLACK_WEBHOOK_URL:
      res2 = post_slack_webhook(text if not thread_details else f"{text}\n\n{thread_details}")
      posted = res2.get("ok", False)
  \<close>
\<close>

definition webhook_phase ::
  "config \<Rightarrow> digest_env \<Rightarrow> pystr \<Rightarrow> pystr option \<Rightarrow> bool \<Rightarrow> 'f event list \<times> (exn + bool)" where
  "webhook_phase cfg env text thread_details posted =
     (if \<not> posted \<and> SLACK_WEBHOOK_URL cfg \<noteq> []
      then post_slack_webhook cfg env
             (if \<not> truthy thread_details then text else text @ [NL, NL] @ the thread_details)
      else ([], Inr posted))"

text \<open>
  \<^verbatim>\<open>
  if WRITE_CSV:
      path = write_csv(rows, CSV_DIR)
      if posted and UPLOAD_CSV_TO_SLACK:
          upload_file_to_slack(path, title="Bounty digest CSV")
  \<close>
\<close>

definition csv_phase :: "config \<Rightarrow> digest_env \<Rightarrow> 'f row list \<Rightarrow> bool \<Rightarrow> 'f event list \<times> exn option" where
  "csv_phase cfg env rows posted =
     (if WRITE_CSV cfg then
        (case csv_result env of
           Inl e \<Rightarrow> ([], Some e)
         | Inr path \<Rightarrow>
             if posted \<and> UPLOAD_CSV_TO_SLACK cfg
             then (case upload_file_to_slack cfg env path of
                     (evs, r) \<Rightarrow> (CsvWrite rows path # evs, r))
             else ([CsvWrite rows path], None))
      else ([], None))"

text \<open>
  \<^verbatim>\<open>
  if posted:
      ids = [r["id"] for r in rows]
      conn.executemany("UPDATE pending SET notified=1 WHERE id=?", [(i,) for i in ids])
      conn.commit()
  \<close>
\<close>

definition commit_phase :: "'f store \<Rightarrow> 'f row list \<Rightarrow> bool \<Rightarrow> 'f store" where
  "commit_phase conn rows posted = (if posted then mark_notified (map rid rows) conn else conn)"

text \<open>
  \<^verbatim>\<open>
  now = int(time.time())
  lookback = lookback_override_min or DIGEST_LOOKBACK_MIN
  since = now - (lookback * 60)
  cur.execute("SELECT ... WHERE created_at>=? AND notified=0 ORDER BY created_at DESC LIMIT ?",
              (since, MAX_ITEMS_IN_DIGEST))
  rows_raw = cur.fetchall()
  \<close>
\<close>

definition digest_lookback :: "config \<Rightarrow> int option \<Rightarrow> int" where
  "digest_lookback cfg lookback_override_min =
     (case lookback_override_min of
        None \<Rightarrow> DIGEST_LOOKBACK_MIN cfg
      | Some m \<Rightarrow> if m = 0 then DIGEST_LOOKBACK_MIN cfg else m)"

definition digest_rows :: "config \<Rightarrow> int \<Rightarrow> int option \<Rightarrow> 'f store \<Rightarrow> 'f row list" where
  "digest_rows cfg now lookback_override_min conn =
     select_pending conn (now - digest_lookback cfg lookback_override_min * 60)
       (MAX_ITEMS_IN_DIGEST cfg)"

text \<open>
  \<^verbatim>\<open>digest(lookback_override_min=None)\<close>, run at clock reading \<open>now\<close> against the outside
  world \<open>env\<close>. The result is the store afterwards, the events in order and the
  exception that ended the run, if any; \<open>None\<close> when the run does not end.
\<close>

definition digest ::
  "'f pylib \<Rightarrow> config \<Rightarrow> digest_env \<Rightarrow> int \<Rightarrow> int option \<Rightarrow> 'f store \<Rightarrow>
   ('f store \<times> 'f event list \<times> exn option) option" where
  "digest lib cfg env now lookback_override_min conn =
     (let lookback = digest_lookback cfg lookback_override_min;
          rows = digest_rows cfg now lookback_override_min conn
      in if int (length rows) < DIGEST_MIN_COUNT cfg then Some (conn, [], None)
         else
           (case make_digest_text lib cfg rows lookback of
              Inl e \<Rightarrow> Some (conn, [], Some e)
            | Inr (text, thread_details) \<Rightarrow>
                (case primary_phase cfg env text thread_details of
                   None \<Rightarrow> None
                 | Some (ev1, Inl e) \<Rightarrow> Some (conn, ev1, Some e)
                 | Some (ev1, Inr posted1) \<Rightarrow>
                     (case webhook_phase cfg env text thread_details posted1 of
                        (ev2, Inl e) \<Rightarrow> Some (conn, ev1 @ ev2, Some e)
                      | (ev2, Inr posted) \<Rightarrow>
                          (case csv_phase cfg env rows posted of
                             (ev3, Some e) \<Rightarrow> Some (conn, ev1 @ ev2 @ ev3, Some e)
                           | (ev3, None) \<Rightarrow>
                               Some (commit_phase conn rows posted, ev1 @ ev2 @ ev3, None))))))"

section \<open>Reading a run\<close>

text \<open>The texts handed to \<^verbatim>\<open>post_slack_bot\<close>, to \<^verbatim>\<open>post_slack_thread\<close> and to the webhook.\<close>

fun bot_texts :: "'f event list \<Rightarrow> pystr list" where
  "bot_texts [] = []"
| "bot_texts (BotPost t # evs) = t # bot_texts evs"
| "bot_texts (_ # evs) = bot_texts evs"

fun thread_texts :: "'f event list \<Rightarrow> pystr list" where
  "thread_texts [] = []"
| "thread_texts (ThreadPost tts t # evs) = t # thread_texts evs"
| "thread_texts (_ # evs) = thread_texts evs"

fun webhook_texts :: "'f event list \<Rightarrow> pystr list" where
  "webhook_texts [] = []"
| "webhook_texts (WebhookPost t # evs) = t # webhook_texts evs"
| "webhook_texts (_ # evs) = webhook_texts evs"

text \<open>The export files written and the files uploaded.\<close>

fun csv_files :: "'f event list \<Rightarrow> pystr list" where
  "csv_files [] = []"
| "csv_files (CsvWrite rows path # evs) = path # csv_files evs"
| "csv_files (_ # evs) = csv_files evs"

fun uploads :: "'f event list \<Rightarrow> pystr list" where
  "uploads [] = []"
| "uploads (Upload path # evs) = path # uploads evs"
| "uploads (_ # evs) = uploads evs"

text \<open>
  A transport call of the run returned confirmed acceptance: the bot was called and
  answered \<open>ok\<close>, or the webhook was called and answered with status 200 and a body
  \<^verbatim>\<open>"ok"\<close> or empty.
\<close>

definition bot_accepted :: "digest_env \<Rightarrow> 'f event list \<Rightarrow> bool" where
  "bot_accepted env evs \<longleftrightarrow>
     bot_texts evs \<noteq> [] \<and> (case bot_result env of Inl e \<Rightarrow> False | Inr res \<Rightarrow> ok res)"

definition webhook_accepted :: "digest_env \<Rightarrow> 'f event list \<Rightarrow> bool" where
  "webhook_accepted env evs \<longleftrightarrow>
     webhook_texts evs \<noteq> [] \<and>
     (case webhook_result env of
        Inl e \<Rightarrow> False
      | Inr (status, body) \<Rightarrow> status = 200 \<and> (strip body = ascii ''ok'' \<or> strip body = []))"

definition accepted :: "digest_env \<Rightarrow> 'f event list \<Rightarrow> bool" where
  "accepted env evs \<longleftrightarrow> bot_accepted env evs \<or> webhook_accepted env evs"


text \<open>
  From \<open>s\<close> to \<open>s'\<close> every row stays where it is, unchanged but for \<open>notified\<close>, which may
  have been set to 1; rows may have been added at the end.
\<close>

definition row_kept :: "'f row \<Rightarrow> 'f row \<Rightarrow> bool" where
  "row_kept r r' \<longleftrightarrow> r' = r \<or> r' = r\<lparr>notified := 1\<rparr>"

definition rows_kept :: "'f store \<Rightarrow> 'f store \<Rightarrow> bool" where
  "rows_kept s s' \<longleftrightarrow>
     length (pending s) \<le> length (pending s') \<and>
     (\<forall>i<length (pending s). row_kept (pending s ! i) (pending s' ! i))"

section \<open>collect\<close>

text \<open>
  One item of the GitHub search result, as far as \<^verbatim>\<open>collect\<close> reads it. \<^verbatim>\<open>it['id']\<close> and
  \<^verbatim>\<open>l["name"]\<close> raise \<^verbatim>\<open>KeyError\<close> when the key is missing (\<open>None\<close>); the other fields
  are read with \<^verbatim>\<open>get\<close> and a default. \<open>gh_created_at\<close> is the issue's own creation time
  in the answer, which \<^verbatim>\<open>collect\<close> never reads.
\<close>

record gh_item =
  gh_id :: "int option"
  gh_title :: pystr
  gh_html_url :: pystr
  gh_repository_url :: pystr
  gh_labels :: "pystr option list"
  gh_created_at :: pystr

text \<open>One dict of the list that \<^verbatim>\<open>algora_list\<close> builds.\<close>

record 'f algora_item =
  al_id :: pystr
  al_source :: pystr
  al_title :: pystr
  al_url :: pystr
  al_repo :: pystr
  al_labels :: "pystr list"
  al_amount :: "'f option"
  al_currency :: "pystr option"
  al_created_at :: "int option"

text \<open>
  The outside world of one \<^verbatim>\<open>collect\<close> run. \<open>github_search langs minutes\<close> is the result
  of the search (or the exception it raises), each item with the reading of the clock
  at the moment its upsert runs; \<open>algora_list\<close> likewise. \<open>profile_languages\<close> is the
  result of \<^verbatim>\<open>fetch_profile_languages\<close>.
\<close>

record 'f collect_env =
  profile_languages :: "exn + pystr list"
  github_search :: "pystr list \<Rightarrow> int \<Rightarrow> exn + (gh_item \<times> int) list"
  algora_list :: "exn + ('f algora_item \<times> int) list"

text \<open>Truth value of a stored JSON value.\<close>

definition json_truthy :: "json option \<Rightarrow> bool" where
  "json_truthy v \<longleftrightarrow>
     (case v of None \<Rightarrow> False | Some (JList l) \<Rightarrow> l \<noteq> [] | Some (JInt i) \<Rightarrow> i \<noteq> 0)"

text \<open>
  \<^verbatim>\<open>
  def ensure_languages(conn):
      if USE_PROFILE_LANGS:
          cached = meta_get(conn, "profile_languages")
          ts     = meta_get(conn, "profile_languages_ts")
          if cached and ts and (time.time()-ts) < 24*3600:
              return cached
          langs = fetch_profile_languages()
          meta_set(conn, "profile_languages", langs)
          meta_set(conn, "profile_languages_ts", int(time.time()))
          return langs
      return STATIC_LANGUAGES
  \<close>
  A cached value of the wrong shape (a time that is a list, languages that are a
  number) makes Python raise \<^verbatim>\<open>TypeError\<close>, here or at the first use of the languages.
\<close>

definition fetch_and_cache :: "'f collect_env \<Rightarrow> int \<Rightarrow> 'f store \<Rightarrow> 'f store \<times> (exn + pystr list)" where
  "fetch_and_cache env now conn =
     (case profile_languages env of
        Inl e \<Rightarrow> (conn, Inl e)
      | Inr langs \<Rightarrow>
          (meta_set (meta_set conn (ascii ''profile_languages'') (JList langs))
             (ascii ''profile_languages_ts'') (JInt now), Inr langs))"

definition ensure_languages ::
  "config \<Rightarrow> 'f collect_env \<Rightarrow> int \<Rightarrow> 'f store \<Rightarrow> 'f store \<times> (exn + pystr list)" where
  "ensure_languages cfg env now conn =
     (if USE_PROFILE_LANGS cfg then
        (let cached = meta_get conn (ascii ''profile_languages'');
             tsv = meta_get conn (ascii ''profile_languages_ts'')
         in if json_truthy cached \<and> json_truthy tsv then
              (case tsv of
                 Some (JInt t) \<Rightarrow>
                   if now - t < 24 * 3600
                   then (case cached of
                           Some (JList l) \<Rightarrow> (conn, Inr l)
                         | _ \<Rightarrow> (conn, Inl TypeError))
                   else fetch_and_cache env now conn
               | _ \<Rightarrow> (conn, Inl TypeError))
            else fetch_and_cache env now conn)
      else (conn, Inr (STATIC_LANGUAGES cfg)))"

text \<open>
  The part of \<open>s\<close> after the last occurrence of \<open>sep\<close>, \<open>None\<close> when \<open>sep\<close> does not
  occur: \<^verbatim>\<open>s.split(sep)[-1] if sep in s else ""\<close> for a separator such as \<^verbatim>\<open>"repos/"\<close>,
  no two occurrences of which overlap.
\<close>

fun after_last :: "pystr \<Rightarrow> pystr \<Rightarrow> pystr option" where
  "after_last sep [] = None"
| "after_last sep (c # cs) =
     (case after_last sep cs of
        Some r \<Rightarrow> Some r
      | None \<Rightarrow> if startswith (c # cs) sep then Some (drop (length sep) (c # cs)) else None)"

definition repo_of_url :: "pystr \<Rightarrow> pystr" where
  "repo_of_url u = (case after_last (ascii ''repos/'') u of Some r \<Rightarrow> r | None \<Rightarrow> [])"

text \<open>The names of the labels of an item; \<open>None\<close> when one has no name (\<^verbatim>\<open>KeyError\<close>).\<close>

fun label_names :: "pystr option list \<Rightarrow> pystr list option" where
  "label_names [] = Some []"
| "label_names (None # ls) = None"
| "label_names (Some n # ls) = (case label_names ls of None \<Rightarrow> None | Some ns \<Rightarrow> Some (n # ns))"

text \<open>
  The GitHub loop of \<^verbatim>\<open>collect\<close>:
  \<^verbatim>\<open>
  for it in github_search(languages, since_minutes or WINDOW_MINUTES):
      if upsert_pending(conn, source="github", key=f"gh:{it['id']}",
              title=it.get("title",""), url=it.get("html_url",""),
              repo=(... .split("repos/")[-1] if "repos/" in ... else ""),
              labels=[l["name"] for l in it.get("labels", [])], language=""):
          gh_new += 1
  \<close>
  No \<^verbatim>\<open>created_at\<close> is passed. The result is the store, the count and the exception that
  ended the loop, if any.
\<close>

fun collect_github :: "'f store \<Rightarrow> (gh_item \<times> int) list \<Rightarrow> nat \<Rightarrow> 'f store \<times> nat \<times> exn option" where
  "collect_github conn [] gh_new = (conn, gh_new, None)"
| "collect_github conn ((it, t) # rest) gh_new =
     (case gh_id it of
        None \<Rightarrow> (conn, gh_new, Some KeyError)
      | Some i \<Rightarrow>
          (case label_names (gh_labels it) of
             None \<Rightarrow> (conn, gh_new, Some KeyError)
           | Some labs \<Rightarrow>
               (case upsert_pending conn t (ascii ''github'') (ascii ''gh:'' @ str_int i)
                       (gh_title it) (gh_html_url it) (repo_of_url (gh_repository_url it))
                       labs [] None None None of
                  (conn', inserted) \<Rightarrow>
                    collect_github conn' rest (if inserted then gh_new + 1 else gh_new))))"

text \<open>
  The Algora loop:
  \<^verbatim>\<open>
  for b in algora_list():
      if upsert_pending(conn, source=b["source"], key=b["id"], title=b["title"],
              url=b["url"], repo=b["repo"], labels=b["labels"], language="",
              amount=b.get("amount"), currency=b.get("currency"),
              created_at=b.get("created_at")):
          al_new += 1
  \<close>
\<close>

fun collect_algora :: "'f store \<Rightarrow> ('f algora_item \<times> int) list \<Rightarrow> nat \<Rightarrow> 'f store \<times> nat" where
  "collect_algora conn [] al_new = (conn, al_new)"
| "collect_algora conn ((b, t) # rest) al_new =
     (case upsert_pending conn t (al_source b) (al_id b) (al_title b) (al_url b) (al_repo b)
             (al_labels b) [] (al_amount b) (al_currency b) (al_created_at b) of
        (conn', inserted) \<Rightarrow>
          collect_algora conn' rest (if inserted then al_new + 1 else al_new))"

text \<open>The source adapters that a run of \<^verbatim>\<open>collect\<close> called.\<close>

datatype adapter = GitHub | Algora

text \<open>
  \<^verbatim>\<open>
  def collect(since_minutes=None, include_algora=True):
      conn = db()
      languages = ensure_languages(conn)
      gh_new = 0
      try:
          for it in github_search(languages, since_minutes or WINDOW_MINUTES): ...
      except requests.HTTPError as e:
          logger.error("[collect] GitHub error: %s", e)
      al_new = 0
      if include_algora:
          try:
              for b in algora_list(): ...
          except Exception as e:
              logger.error("[collect] Algora error: %s", e)
  \<close>
  The result is the store afterwards, the adapters called in order and the exception
  that left \<^verbatim>\<open>collect\<close>, if any.
\<close>

definition collect ::
  "config \<Rightarrow> 'f collect_env \<Rightarrow> int \<Rightarrow> int option \<Rightarrow> bool \<Rightarrow> 'f store \<Rightarrow>
   'f store \<times> adapter list \<times> exn option" where
  "collect cfg env now since_minutes include_algora conn0 =
     (case ensure_languages cfg env now conn0 of
        (conn, Inl e) \<Rightarrow> (conn, [], Some e)
      | (conn, Inr languages) \<Rightarrow>
          (let minutes = (case since_minutes of
                            None \<Rightarrow> WINDOW_MINUTES cfg
                          | Some m \<Rightarrow> if m = 0 then WINDOW_MINUTES cfg else m);
               gh = (case github_search env languages minutes of
                       Inl e \<Rightarrow> (conn, 0, Some e)
                     | Inr items \<Rightarrow> collect_github conn items 0)
           in case gh of
                (conn1, gh_new, gh_exn) \<Rightarrow>
                  if gh_exn \<noteq> None \<and> gh_exn \<noteq> Some HTTPError then (conn1, [GitHub], gh_exn)
                  else if include_algora then
                    (case algora_list env of
                       Inl e \<Rightarrow> if is_Exception e then (conn1, [GitHub, Algora], None)
                                else (conn1, [GitHub, Algora], Some e)
                     | Inr bs \<Rightarrow> (fst (collect_algora conn1 bs 0), [GitHub, Algora], None))
                  else (conn1, [GitHub], None)))"

text \<open>
  The default branch of the main block: \<^verbatim>\<open>collect()\<close> under
  \<^verbatim>\<open>try: ... except KeyboardInterrupt: pass\<close>. The last component is the exception
  that ends the process, if any.
\<close>

definition main_collect ::
  "config \<Rightarrow> 'f collect_env \<Rightarrow> int \<Rightarrow> 'f store \<Rightarrow> 'f store \<times> adapter list \<times> exn option" where
  "main_collect cfg env now conn0 =
     (case collect cfg env now None True conn0 of
        (conn, called, r) \<Rightarrow> (conn, called, if r = Some KeyboardInterrupt then None else r))"

section \<open>Concrete inputs\<close>

text \<open>
  An instance of \<open>pylib\<close> for the examples. An amount is counted in hundredths: the
  integer \<open>h \<ge> 0\<close> stands for the float nearest to \<open>h / 100\<close>. On such amounts (below
  \<open>2 ^ 53 / 100\<close>) \<^verbatim>\<open>f"{x:.0f}"\<close> is the integer nearest to \<open>h / 100\<close>, a tie going to the
  even one (a half is a float exactly, and no other amount is close enough to a half for
  its float to fall on the other side). \<open>parse_hundredths\<close> is \<^verbatim>\<open>float(s)\<close> on the
  numerals \<^verbatim>\<open>algora_list\<close> writes and the like: digits, then optionally a point and at
  most two digits. \<open>repr_dict\<close> is \<^verbatim>\<open>str(dict(kvs))\<close> for keys without quotes or escapes
  (\<^verbatim>\<open>str({'github': 2})\<close> is \<^verbatim>\<open>"{'github': 2}"\<close>).
\<close>

definition is_digit :: "nat \<Rightarrow> bool" where
  "is_digit c \<longleftrightarrow> 48 \<le> c \<and> c \<le> 57"

definition digits_val :: "pystr \<Rightarrow> nat" where
  "digits_val s = foldl (\<lambda>a c. 10 * a + (c - 48)) 0 s"

definition parse_hundredths :: "pystr \<Rightarrow> int option" where
  "parse_hundredths s =
     (let whole = takeWhile is_digit s; rest = dropWhile is_digit s in
      if whole = [] then None
      else if rest = [] then Some (int (digits_val whole) * 100)
      else if hd rest = 46 \<and> list_all is_digit (tl rest) \<and> length (tl rest) \<le> 2
      then Some (int (digits_val whole) * 100 + int (digits_val (take 2 (tl rest @ [48, 48]))))
      else None)"

definition fmt_round :: "int \<Rightarrow> pystr" where
  "fmt_round h =
     (let q = h div 100; m = h mod 100 in
      str_int (if m < 50 then q else if 50 < m then q + 1 else if even q then q else q + 1))"

definition plain_lib :: "int pylib" where
  "plain_lib =
     \<lparr>fmt0 = fmt_round,
      float_of_str = parse_hundredths,
      repr_dict = (\<lambda>kvs. ascii ''{'' @
                     join (ascii '', '')
                       (map (\<lambda>kv. [39] @ fst kv @ [39] @ ascii '': '' @ str_nat (snd kv)) kvs) @
                     ascii ''}'')\<rparr>"

text \<open>The settings of the source's defaults, with a bot token and no webhook.\<close>

definition demo_cfg :: config where
  "demo_cfg =
     \<lparr>SLACK_BOT_TOKEN = ascii ''xoxb-1'', SLACK_WEBHOOK_URL = [], USE_PROFILE_LANGS = False,
      STATIC_LANGUAGES = [ascii ''TypeScript'', ascii ''Go'', ascii ''Python''],
      WINDOW_MINUTES = 12, DIGEST_LOOKBACK_MIN = 60, DIGEST_MIN_COUNT = 1,
      MAX_ITEMS_IN_DIGEST = 50, MAX_SLACK_CHARS = 3500, POST_LONG_AS_THREAD = True,
      WRITE_CSV = True, CSV_DIR = ascii ''./bounty_csv'', UPLOAD_CSV_TO_SLACK = False\<rparr>"


text \<open>A pending GitHub row, inserted at time 1000000 (13:46 UTC).\<close>

definition demo_row :: "int row" where
  "demo_row =
     \<lparr>rid = 1, source = ascii ''github'', key = ascii ''gh:1'', title = ascii ''Fix bug'',
      url = ascii ''https://x/1'', repo = ascii ''o/r'', labels = [ascii ''bounty''],
      language = [], amount = None, currency = None, created_at = 1000000, notified = 0\<rparr>"

definition demo_store :: "int store" where
  "demo_store = \<lparr>pending = [demo_row], meta = Map.empty\<rparr>"

text \<open>The digest text of \<open>demo_store\<close> at lookback 60.\<close>

definition demo_text :: pystr where
  "demo_text =
     [128142] @ ascii '' Bounty digest '' @ [8212] @ ascii '' last 60 min '' @ [183] @
     ascii '' 1 item'' @ [NL] @
     ascii ''Sources: {'' @ [39] @ ascii ''github'' @ [39] @ ascii '': 1}'' @ [NL] @
     ascii ''Top repos: o/r (1)'' @ [NL, NL] @
     [8226] @ ascii '' o/r '' @ [8212] @ ascii '' Fix bug'' @ [NL] @
     ascii ''  https://x/1 (13:46Z)''"

text \<open>
  Outside worlds. In \<open>env_ok\<close> every call succeeds and Slack accepts the post. In
  \<open>env_csv_fails\<close> Slack accepts the post and \<^verbatim>\<open>write_csv\<close> raises \<^verbatim>\<open>OSError\<close> (a
  directory that cannot be written). In \<open>env_rejected\<close> Slack answers \<open>ok = False\<close> and
  the webhook answers with status 500.
\<close>

definition env_ok :: digest_env where
  "env_ok =
     \<lparr>bot_result = Inr \<lparr>ok = True, ts = Some (ascii ''1.5''), message_ts = None\<rparr>,
      thread_result = (\<lambda>i. None), webhook_result = Inr (200, ascii ''ok''),
      csv_result = Inr (ascii ''./bounty_csv/bounty_digest_19700112_1356.csv''),
      upload_result = None\<rparr>"

definition env_csv_fails :: digest_env where
  "env_csv_fails = env_ok\<lparr>csv_result := Inl OSError\<rparr>"

definition env_rejected :: digest_env where
  "env_rejected =
     env_ok\<lparr>bot_result := Inr \<lparr>ok = False, ts = None, message_ts = None\<rparr>,
            webhook_result := Inr (500, ascii ''server error'')\<rparr>"



text \<open>
  An outside world for \<^verbatim>\<open>collect\<close> in which the network is down for the GitHub search
  (\<^verbatim>\<open>requests.get\<close> raises \<^verbatim>\<open>ConnectionError\<close>) while Algora would answer with one
  bounty.
\<close>

definition demo_bounty :: "int algora_item" where
  "demo_bounty =
     \<lparr>al_id = ascii ''algora:9'', al_source = ascii ''algora'', al_title = ascii ''Add feature'',
      al_url = ascii ''https://x/9'', al_repo = ascii ''o/r'', al_labels = [ascii ''USD 50.00''],
      al_amount = Some 5000, al_currency = Some (ascii ''USD''), al_created_at = Some 1000000\<rparr>"

definition env_github_down :: "int collect_env" where
  "env_github_down =
     \<lparr>profile_languages = Inr [ascii ''Python''],
      github_search = (\<lambda>languages minutes. Inl ConnectionError),
      algora_list = Inr [(demo_bounty, 1000000)]\<rparr>"

text \<open>A search result of one issue, created upstream in 2020 and upserted at time 1000000.\<close>

definition demo_issue :: gh_item where
  "demo_issue =
     \<lparr>gh_id = Some 7, gh_title = ascii ''Fix bug'', gh_html_url = ascii ''https://x/7'',
      gh_repository_url = ascii ''https://api.github.com/repos/o/r'',
      gh_labels = [Some (ascii ''bounty'')], gh_created_at = ascii ''2020-01-01T00:00:00Z''\<rparr>"

text \<open>
  Settings with a budget of 120 characters (\<^verbatim>\<open>MAX_SLACK_CHARS=120\<close>), and a store with a
  second, older pending row whose title is 150 characters long.
\<close>

definition narrow_cfg :: config where
  "narrow_cfg = demo_cfg\<lparr>MAX_SLACK_CHARS := 120\<rparr>"

definition long_row :: "int row" where
  "long_row =
     demo_row\<lparr>rid := 2, key := ascii ''gh:2'', created_at := 999940,
       title := ascii ''aaaaaaaaaaaaaaaaaaaaaaaaaaaaaaaaaaaaaaaaaaaaaaaaaaaaaaaaaaaaaaaaaaaaaaaaaaaaaaaaaaaaaaaaaaaaaaaaaaaaaaaaaaaaaaaaaaaaaaaaaaaaaaaaaaaaaaaaaaaaaaaaaaaaaa''\<rparr>"

definition long_store :: "int store" where
  "long_store = \<lparr>pending = [demo_row, long_row], meta = Map.empty\<rparr>"

text \<open>The header message and the bullets of \<open>long_store\<close> at lookback 60.\<close>

definition long_header :: pystr where
  "long_header =
     [128142] @ ascii '' Bounty digest '' @ [8212] @ ascii '' last 60 min '' @ [183] @
     ascii '' 2 items'' @ [NL] @
     ascii ''Sources: {'' @ [39] @ ascii ''github'' @ [39] @ ascii '': 2}'' @ [NL] @
     ascii ''Top repos: o/r (2)'' @ [NL, NL] @
     ascii ''(Details in thread '' @ [10549, 65039] @ ascii '')''"

definition long_details :: pystr where
  "long_details =
     [8226] @ ascii '' o/r '' @ [8212] @ ascii '' Fix bug'' @ [NL] @
     ascii ''  https://x/1 (13:46Z)'' @ [NL] @
     [8226] @ ascii '' o/r '' @ [8212] @ ascii '' '' @ title long_row @ [NL] @
     ascii ''  https://x/1 (13:45Z)''"

section \<open>Theorems\<close>

subsection \<open>Strings\<close>

lemma ascii_simps [simp]: "ascii [] = []" "ascii (c # cs) = of_char c # ascii cs"
  by (simp_all add: ascii_def)

subsection \<open>chunk_text\<close>

lemma rfind_scan_char:
  "(rfind_scan cs i b = b \<and> (\<forall>j<length cs. cs ! j \<noteq> NL)) \<or>
   (\<exists>j<length cs. cs ! j = NL \<and> rfind_scan cs i b = int (i + j) \<and>
       (\<forall>k<length cs. j < k \<longrightarrow> cs ! k \<noteq> NL))"
proof (induction cs arbitrary: i b)
  case Nil
  show ?case by simp
next
  case (Cons c cs)
  let ?b = "if c = NL then int i else b"
  from Cons.IH [of "Suc i" ?b]
  consider (none) "rfind_scan cs (Suc i) ?b = ?b" "\<forall>j<length cs. cs ! j \<noteq> NL"
    | (some) j where "j < length cs" "cs ! j = NL" "rfind_scan cs (Suc i) ?b = int (Suc i + j)"
        "\<forall>k<length cs. j < k \<longrightarrow> cs ! k \<noteq> NL"
    by blast
  then show ?case
  proof cases
    case none
    show ?thesis
    proof (cases "c = NL")
      case True
      have "\<forall>k<length (c # cs). 0 < k \<longrightarrow> (c # cs) ! k \<noteq> NL"
        using none(2) by (auto simp: nth_Cons split: nat.splits)
      moreover have "rfind_scan (c # cs) i b = int (i + 0)"
        using none(1) True by simp
      ultimately show ?thesis using True by (intro disjI2 exI [of _ 0]) simp
    next
      case False
      have "\<forall>j<length (c # cs). (c # cs) ! j \<noteq> NL"
        using none(2) False by (auto simp: nth_Cons split: nat.splits)
      moreover have "rfind_scan (c # cs) i b = b"
        using none(1) False by simp
      ultimately show ?thesis by blast
    qed
  next
    case some
    have "\<forall>k<length (c # cs). Suc j < k \<longrightarrow> (c # cs) ! k \<noteq> NL"
      using some(4) by (auto simp: nth_Cons split: nat.splits)
    moreover have "rfind_scan (c # cs) i b = int (i + Suc j)"
      using some(3) by simp
    ultimately show ?thesis
      using some(1,2) by (intro disjI2 exI [of _ "Suc j"]) simp
  qed
qed

lemma chunk_text_short: "s \<noteq> [] \<Longrightarrow> int (length s) \<le> limit \<Longrightarrow> chunk_text s limit = Some [s]"
  by (subst chunk_text.simps) simp

lemma chunk_text_Nil: "chunk_text [] limit = Some []"
  by (subst chunk_text.simps) simp

lemma rfind_nl_cut:
  assumes B: "1 \<le> B" and long: "B < int (length s)"
  defines "c0 \<equiv> rfind_nl s B"
  defines "k \<equiv> nat (if c0 \<le> 0 then B else c0)"
  shows "1 \<le> k \<and> k \<le> nat B \<and> is_cut s (nat B) k \<and> (if c0 \<le> 0 then B else c0) = int k"
proof -
  have tk: "take (nat B) s ! j = s ! j" if "j < nat B" for j
    using that by simp
  have len: "length (take (nat B) s) = nat B"
    using long by simp
  have c0: "c0 = rfind_scan (take (nat B) s) 0 (- 1)"
    using B long by (simp add: c0_def rfind_nl_def Let_def min_def)
  from rfind_scan_char [of "take (nat B) s" 0 "- 1"]
  consider (none) "c0 = - 1" "\<forall>j<nat B. s ! j \<noteq> NL"
    | (some) j where "j < nat B" "s ! j = NL" "c0 = int j" "\<forall>i<nat B. j < i \<longrightarrow> s ! i \<noteq> NL"
    unfolding c0 [symmetric] len using tk by (metis add_0)
  then show ?thesis
  proof cases
    case none
    then have k: "k = nat B" by (simp add: k_def)
    have "is_cut s (nat B) k"
      using none(2) k by (auto simp: is_cut_def)
    then show ?thesis using B none k by simp
  next
    case some
    have "is_cut s (nat B) k"
    proof (cases "j = 0")
      case True
      then have "k = nat B" "\<forall>i\<in>{1..<nat B}. s ! i \<noteq> NL"
        using some by (auto simp: k_def)
      then show ?thesis by (auto simp: is_cut_def)
    next
      case False
      then have "k = j" using some by (simp add: k_def)
      then show ?thesis using some False by (auto simp: is_cut_def)
    qed
    then show ?thesis using B some by (auto simp: k_def)
  qed
qed

lemma chunk_text_step:
  assumes B: "1 \<le> B" and long: "B < int (length s)"
  shows "\<exists>k. 1 \<le> k \<and> k \<le> nat B \<and> is_cut s (nat B) k \<and>
     chunk_text s B = Option.bind (chunk_text (lstrip (drop k s)) B) (\<lambda>rest. Some (take k s # rest))"
proof -
  define c0 where "c0 = rfind_nl s B"
  define k where "k = nat (if c0 \<le> 0 then B else c0)"
  have f: "1 \<le> k \<and> k \<le> nat B \<and> is_cut s (nat B) k \<and> (if c0 \<le> 0 then B else c0) = int k"
    unfolding k_def c0_def by (rule rfind_nl_cut [OF B long])
  then have f4: "(if c0 \<le> 0 then B else c0) = int k" by simp
  have ne: "s \<noteq> []" using B long by auto
  have "chunk_text s B = Option.bind (chunk_text (lstrip (py_drop s (int k))) B)
          (\<lambda>rest. Some (py_take s (int k) # rest))"
    using ne long f4 by (subst chunk_text.simps) (simp add: c0_def [symmetric] Let_def)
  then have "chunk_text s B = Option.bind (chunk_text (lstrip (drop k s)) B) (\<lambda>rest. Some (take k s # rest))"
    by (simp add: py_drop_def py_take_def)
  with f show ?thesis by blast
qed

lemma chunk_text_total:
  assumes B: "1 \<le> B"
  shows "\<exists>cs. chunk_text T B = Some cs \<and> chunks_ok T B cs"
proof (induction T rule: length_induct)
  case (1 T)
  show ?case
  proof (cases "T = []")
    case True
    then show ?thesis by (simp add: chunk_text_Nil chunks_ok_def)
  next
    case ne: False
    show ?thesis
    proof (cases "int (length T) \<le> B")
      case True
      have "concat (map2 (@) [T] [[]]) = T" by simp
      then have "chunks_ok T B [T]"
        unfolding chunks_ok_def using ne True
        by (intro conjI exI [of _ "[[]]"]) simp_all
      then show ?thesis using ne True by (simp add: chunk_text_short)
    next
      case False
      then have long: "B < int (length T)" by simp
      from chunk_text_step [OF B long] obtain k where k: "1 \<le> k" "k \<le> nat B"
        and eq: "chunk_text T B = Option.bind (chunk_text (lstrip (drop k T)) B) (\<lambda>rest. Some (take k T # rest))"
        by blast
      let ?T' = "lstrip (drop k T)"
      let ?w = "takeWhile isspace (drop k T)"
      have "length ?T' \<le> length (drop k T)"
        unfolding lstrip_def by (rule length_dropWhile_le)
      then have "length ?T' < length T" using k ne by (cases T) auto
      with 1 obtain cs where cs: "chunk_text ?T' B = Some cs" "chunks_ok ?T' B cs" by blast
      from cs(2) obtain ws where ws: "length ws = length cs" "\<forall>w\<in>set ws. \<forall>x\<in>set w. isspace x"
        "concat (map2 (@) cs ws) = ?T'" by (auto simp: chunks_ok_def)
      have split: "take k T @ ?w @ ?T' = T"
        by (simp add: lstrip_def)
      have w: "\<forall>x\<in>set ?w. isspace x" by (auto dest: set_takeWhileD)
      have klen: "k < length T" using k long by linarith
      have "chunks_ok T B (take k T # cs)"
        unfolding chunks_ok_def
      proof (intro conjI)
        show "\<forall>c\<in>set (take k T # cs). c \<noteq> [] \<and> int (length c) \<le> B"
          using cs(2) k klen ne by (auto simp: chunks_ok_def)
        show "\<exists>ws. length ws = length (take k T # cs) \<and> (\<forall>w\<in>set ws. \<forall>x\<in>set w. isspace x) \<and>
           concat (map2 (@) (take k T # cs) ws) = T"
          using ws w split by (intro exI [of _ "?w # ws"]) simp
      qed
      then show ?thesis using eq cs(1) by simp
    qed
  qed
qed

text \<open>
  Claim C4, as the code has it. For every text \<open>T\<close> and budget \<open>B \<ge> 1\<close>, \<open>chunk_text\<close>
  returns; its fragments are non-empty and at most \<open>B\<close> long; putting the trimmed
  whitespace back after each fragment gives \<open>T\<close> again; the empty text has no fragment
  and a non-empty text of length at most \<open>B\<close> is its own single fragment; and a longer
  text is cut at the last newline among the indices \<open>1 \<dots> B - 1\<close> when there is one and
  at \<open>B\<close> otherwise, the rest of the fragments being those of the left-trimmed
  remainder (so the same rule holds at every cut).
\<close>

theorem chunk_text_law:
  assumes "1 \<le> B"
  shows "\<exists>cs. chunk_text T B = Some cs \<and> chunks_ok T B cs \<and>
           (T = [] \<longrightarrow> cs = []) \<and>
           (T \<noteq> [] \<and> int (length T) \<le> B \<longrightarrow> cs = [T]) \<and>
           (B < int (length T) \<longrightarrow>
              (\<exists>k rest. is_cut T (nat B) k \<and> cs = take k T # rest \<and>
                 chunk_text (lstrip (drop k T)) B = Some rest))"
proof -
  from chunk_text_total [OF assms, of T] obtain cs
    where cs: "chunk_text T B = Some cs" "chunks_ok T B cs" by blast
  have empty: "T = [] \<longrightarrow> cs = []"
    using cs(1) by (auto simp: chunk_text_Nil)
  have short: "T \<noteq> [] \<and> int (length T) \<le> B \<longrightarrow> cs = [T]"
    using cs(1) by (auto simp: chunk_text_short)
  have long: "\<exists>k rest. is_cut T (nat B) k \<and> cs = take k T # rest \<and>
      chunk_text (lstrip (drop k T)) B = Some rest" if "B < int (length T)"
  proof -
    from chunk_text_step [OF assms that] obtain k where k: "is_cut T (nat B) k"
      and eq: "chunk_text T B =
        Option.bind (chunk_text (lstrip (drop k T)) B) (\<lambda>rest. Some (take k T # rest))"
      by blast
    from chunk_text_total [OF assms, of "lstrip (drop k T)"] obtain rest
      where rest: "chunk_text (lstrip (drop k T)) B = Some rest" by blast
    with eq cs(1) have "cs = take k T # rest" by simp
    with k rest show ?thesis by blast
  qed
  from cs empty short long show ?thesis by blast
qed

text \<open>The hypothesis of \<open>chunk_text_law\<close> at budget 4, on a short and on a long text.\<close>

theorem chunk_text_law_witness:
  "(1::int) \<le> 4 \<and>
   (\<exists>cs. chunk_text (ascii ''ab'') 4 = Some cs \<and> chunks_ok (ascii ''ab'') 4 cs \<and>
      cs = [ascii ''ab'']) \<and>
   (\<exists>cs. chunk_text (ascii ''ab cd ef'') 4 = Some cs \<and> chunks_ok (ascii ''ab cd ef'') 4 cs \<and>
      (\<exists>k rest. is_cut (ascii ''ab cd ef'') 4 k \<and> cs = take k (ascii ''ab cd ef'') # rest \<and>
         chunk_text (lstrip (drop k (ascii ''ab cd ef''))) 4 = Some rest))"
proof -
  have h: "(1::int) \<le> 4" by simp
  show ?thesis
    using h chunk_text_law [OF h, of "ascii ''ab''"] chunk_text_law [OF h, of "ascii ''ab cd ef''"]
    by simp
qed

text \<open>
  Claim C4 as it is stated fails at two inputs. The empty text has length \<open>0 \<le> 3\<close>,
  yet its result is the empty sequence and not a single (empty) fragment. And the
  text made of a newline followed by \<open>abcdef\<close> has a newline in range of the limit 3
  (at index 0), yet the first cut is the hard cut at 3.
\<close>

theorem chunk_text_counterexample:
  "chunk_text [] 3 = Some [] \<and> chunk_text [] 3 \<noteq> Some [[]] \<and>
   (NL # ascii ''abcdef'') ! 0 = NL \<and>
   chunk_text (NL # ascii ''abcdef'') 3 = Some [NL # ascii ''ab'', ascii ''cde'', ascii ''f'']"
proof -
  have "chunk_text (NL # ascii ''abcdef'') 3 =
      Some [NL # ascii ''ab'', ascii ''cde'', ascii ''f'']"
    apply (simp add: NL_def)
    apply (subst chunk_text.simps,
        simp add: rfind_nl_def py_take_def py_drop_def lstrip_def isspace_def NL_def)+
    done
  then show ?thesis by (simp add: chunk_text_Nil)
qed

subsection \<open>upsert_pending\<close>

lemma count_distinct_key:
  "distinct (map f xs) \<Longrightarrow> x \<in> set xs \<Longrightarrow> length (filter (\<lambda>r. f r = f x) xs) = 1"
proof (induction xs)
  case Nil
  then show ?case by simp
next
  case (Cons y ys)
  show ?case
  proof (cases "f y = f x")
    case True
    with Cons.prems have "\<forall>r\<in>set ys. f r \<noteq> f x" by (metis distinct.simps(2) image_eqI list.simps(9) set_map)
    then have "filter (\<lambda>r. f r = f x) ys = []" by (simp add: filter_empty_conv)
    with True show ?thesis by simp
  next
    case False
    with Cons show ?thesis by auto
  qed
qed

lemma upsert_pending_present:
  "\<exists>r\<in>set (pending conn). source r = src \<and> key r = k \<Longrightarrow>
   upsert_pending conn now src k ttl u rp labs lang amt cur cat = (conn, False)"
  by (simp add: upsert_pending_def)

lemma upsert_pending_absent:
  "\<not> (\<exists>r\<in>set (pending conn). source r = src \<and> key r = k) \<Longrightarrow>
   \<exists>r. upsert_pending conn now src k ttl u rp labs lang amt cur cat =
          (conn\<lparr>pending := pending conn @ [r]\<rparr>, True) \<and>
       source r = src \<and> key r = k \<and> notified r = 0 \<and>
       created_at r = (case cat of None \<Rightarrow> now | Some c \<Rightarrow> if c = 0 then now else c)"
  by (simp add: upsert_pending_def, intro exI conjI, rule refl, simp_all)

lemma upsert_pending_then_present:
  "upsert_pending conn now src k ttl u rp labs lang amt cur cat = (conn1, b) \<Longrightarrow>
   \<exists>r\<in>set (pending conn1). source r = src \<and> key r = k"
  by (auto simp: upsert_pending_def split: if_splits)

lemma upsert_pending_distinct:
  assumes "upsert_pending conn now src k ttl u rp labs lang amt cur cat = (conn1, b)"
    and "distinct (map (\<lambda>r. (source r, key r)) (pending conn))"
  shows "distinct (map (\<lambda>r. (source r, key r)) (pending conn1))"
  using assms by (auto simp: upsert_pending_def split: if_splits)

text \<open>
  Claim C3. When a row with the pair \<open>(src, k)\<close> is present, \<open>upsert_pending\<close> returns
  the store as it was and \<open>False\<close>; otherwise it appends exactly one row, with that
  pair and \<open>notified = 0\<close>, and returns \<open>True\<close>. A second upsert of the same pair
  (whatever its other arguments) changes nothing and returns \<open>False\<close>. After the two
  upserts exactly one row holds the pair, when the first one inserted it and also
  whenever the pairs of the store were distinct before, and they are distinct still.
\<close>

theorem upsert_pending_idempotent:
  "((\<exists>r\<in>set (pending conn). source r = src \<and> key r = k) \<longrightarrow>
      upsert_pending conn now src k ttl u rp labs lang amt cur cat = (conn, False)) \<and>
   (\<not> (\<exists>r\<in>set (pending conn). source r = src \<and> key r = k) \<longrightarrow>
      (\<exists>r. upsert_pending conn now src k ttl u rp labs lang amt cur cat =
              (conn\<lparr>pending := pending conn @ [r]\<rparr>, True) \<and>
           source r = src \<and> key r = k \<and> notified r = 0)) \<and>
   (\<forall>conn1 b. upsert_pending conn now src k ttl u rp labs lang amt cur cat = (conn1, b) \<longrightarrow>
      upsert_pending conn1 now' src k ttl' u' rp' labs' lang' amt' cur' cat' = (conn1, False) \<and>
      (b \<longrightarrow> length (filter (\<lambda>r. source r = src \<and> key r = k) (pending conn1)) = 1) \<and>
      (distinct (map (\<lambda>r. (source r, key r)) (pending conn)) \<longrightarrow>
         length (filter (\<lambda>r. source r = src \<and> key r = k) (pending conn1)) = 1 \<and>
         distinct (map (\<lambda>r. (source r, key r)) (pending conn1))))"
proof (intro conjI allI impI)
  assume "\<exists>r\<in>set (pending conn). source r = src \<and> key r = k"
  then show "upsert_pending conn now src k ttl u rp labs lang amt cur cat = (conn, False)"
    by (rule upsert_pending_present)
next
  assume "\<not> (\<exists>r\<in>set (pending conn). source r = src \<and> key r = k)"
  from upsert_pending_absent [OF this]
  show "\<exists>r. upsert_pending conn now src k ttl u rp labs lang amt cur cat =
              (conn\<lparr>pending := pending conn @ [r]\<rparr>, True) \<and>
           source r = src \<and> key r = k \<and> notified r = 0"
    by blast
next
  fix conn1 b
  assume up: "upsert_pending conn now src k ttl u rp labs lang amt cur cat = (conn1, b)"
  from upsert_pending_then_present [OF up]
  show "upsert_pending conn1 now' src k ttl' u' rp' labs' lang' amt' cur' cat' = (conn1, False)"
    by (rule upsert_pending_present)
next
  fix conn1 b
  assume up: "upsert_pending conn now src k ttl u rp labs lang amt cur cat = (conn1, b)" and b: b
  then have absent: "\<not> (\<exists>r\<in>set (pending conn). source r = src \<and> key r = k)"
    by (auto simp: upsert_pending_def split: if_splits)
  then have "filter (\<lambda>r. source r = src \<and> key r = k) (pending conn) = []"
    by (auto simp: filter_empty_conv)
  with upsert_pending_absent [OF absent, of now ttl u rp labs lang amt cur cat] up
  show "length (filter (\<lambda>r. source r = src \<and> key r = k) (pending conn1)) = 1"
    by auto
next
  fix conn1 b
  assume up: "upsert_pending conn now src k ttl u rp labs lang amt cur cat = (conn1, b)"
    and d: "distinct (map (\<lambda>r. (source r, key r)) (pending conn))"
  from upsert_pending_distinct [OF up d]
  show d1: "distinct (map (\<lambda>r. (source r, key r)) (pending conn1))" .
  from upsert_pending_then_present [OF up] obtain x
    where x: "x \<in> set (pending conn1)" "source x = src" "key x = k" by blast
  from count_distinct_key [OF d1 x(1)] x(2,3)
  show "length (filter (\<lambda>r. source r = src \<and> key r = k) (pending conn1)) = 1"
    by simp
qed

text \<open>
  \<open>upsert_pending_idempotent\<close> on the empty store: the first upsert of
  \<open>(github, gh:1)\<close> inserts one row, the second (with another title and time) changes
  nothing, and one row holds the pair.
\<close>

theorem upsert_pending_idempotent_witness:
  "\<not> (\<exists>r\<in>set (pending \<lparr>pending = [] :: int row list, meta = Map.empty\<rparr>).
        source r = ascii ''github'' \<and> key r = ascii ''gh:1'') \<and>
   distinct (map (\<lambda>r. (source r, key r)) (pending \<lparr>pending = [] :: int row list, meta = Map.empty\<rparr>)) \<and>
   (\<exists>conn1. upsert_pending \<lparr>pending = [] :: int row list, meta = Map.empty\<rparr> 100 (ascii ''github'')
        (ascii ''gh:1'') (ascii ''a'') [] [] [] [] None None None = (conn1, True) \<and>
      upsert_pending conn1 200 (ascii ''github'') (ascii ''gh:1'') (ascii ''b'') [] [] [] [] None None
        None = (conn1, False) \<and>
      length (filter (\<lambda>r. source r = ascii ''github'' \<and> key r = ascii ''gh:1'') (pending conn1)) = 1)"
  using upsert_pending_idempotent [of "\<lparr>pending = [] :: int row list, meta = Map.empty\<rparr>"
      "ascii ''github''" "ascii ''gh:1''" 100 "ascii ''a''" "[]" "[]" "[]" "[]" None None None
      200 "ascii ''b''" "[]" "[]" "[]" "[]" None None None]
  by (simp add: upsert_pending_def)

subsection \<open>Selecting the pending rows\<close>

lemma sql_limit_subset: "set (sql_limit n xs) \<subseteq> set xs"
  by (auto simp: sql_limit_def dest: in_set_takeD)

lemma length_sql_limit_sort: "length (sql_limit n (sort_key f xs)) = length (sql_limit n xs)"
  by (simp add: sql_limit_def)

lemma select_pending_set:
  "x \<in> set (select_pending conn since lim) \<Longrightarrow>
   x \<in> set (pending conn) \<and> since \<le> created_at x \<and> notified x = 0"
  using sql_limit_subset [of lim] by (fastforce simp: select_pending_def)

lemma takeWhile_take: "takeWhile P (take n xs) = take n (takeWhile P xs)"
proof (induction xs arbitrary: n)
  case Nil
  show ?case by simp
next
  case (Cons x xs)
  then show ?case by (cases n) auto
qed

lemma filter_sorted_desc:
  "sorted (map (\<lambda>r. - created_at r) xs) \<Longrightarrow>
   filter (\<lambda>r. s \<le> created_at r) xs = takeWhile (\<lambda>r. s \<le> created_at r) xs"
proof (induction xs)
  case Nil
  show ?case by simp
next
  case (Cons x xs)
  show ?case
  proof (cases "s \<le> created_at x")
    case True
    with Cons show ?thesis by simp
  next
    case False
    with Cons.prems have "\<forall>y\<in>set xs. \<not> s \<le> created_at y" by auto
    then have "filter (\<lambda>r. s \<le> created_at r) xs = []" by (simp add: filter_empty_conv)
    with False show ?thesis by simp
  qed
qed

lemma select_pending_again:
  assumes x: "x \<in> set (select_pending conn since lim)" and w: "since' \<le> created_at x"
  shows "x \<in> set (select_pending conn since' lim)"
proof -
  let ?k = "\<lambda>r::'a row. - created_at r"
  let ?P = "\<lambda>s (r::'a row). s \<le> created_at r \<and> notified r = 0"
  let ?X = "sort_key ?k (sort_key (\<lambda>r. - rid r) (filter (?P since) (pending conn)))"
  let ?X' = "sort_key ?k (sort_key (\<lambda>r. - rid r) (filter (?P since') (pending conn)))"
  from select_pending_set [OF x] have px: "x \<in> set (pending conn)" "since \<le> created_at x" "notified x = 0"
    by simp_all
  show ?thesis
  proof (cases "lim < 0")
    case True
    with px w show ?thesis by (simp add: select_pending_def sql_limit_def)
  next
    case False
    let ?n = "nat lim"
    have xin: "x \<in> set (take ?n ?X)"
      using x False by (simp add: select_pending_def sql_limit_def)
    have sX: "sorted (map ?k (take ?n ?X))"
      by (simp add: sorted_wrt_take flip: take_map)
    have "x \<in> set (filter (\<lambda>r. since' \<le> created_at r) (take ?n ?X))"
      using xin w by simp
    then have "x \<in> set (takeWhile (\<lambda>r. since' \<le> created_at r) (take ?n ?X))"
      using filter_sorted_desc [OF sX] by simp
    then have a: "x \<in> set (take ?n (filter (\<lambda>r. since' \<le> created_at r) ?X))"
      using filter_sorted_desc [of ?X since'] by (simp add: takeWhile_take)
    have "filter (\<lambda>r. since' \<le> created_at r) ?X = filter (\<lambda>r. since \<le> created_at r) ?X'"
      by (simp add: filter_sort conj_commute conj_left_commute cong: conj_cong)
    also have "\<dots> = takeWhile (\<lambda>r. since \<le> created_at r) ?X'"
      by (rule filter_sorted_desc) simp
    finally have "x \<in> set (take ?n (takeWhile (\<lambda>r. since \<le> created_at r) ?X'))"
      using a by simp
    then have "x \<in> set (takeWhile (\<lambda>r. since \<le> created_at r) (take ?n ?X'))"
      by (simp add: takeWhile_take)
    then have "x \<in> set (take ?n ?X')" by (rule set_takeWhileD [THEN conjunct1])
    then show ?thesis using False by (simp add: select_pending_def sql_limit_def)
  qed
qed

subsection \<open>Marking rows as notified\<close>

lemma fold_update_notified:
  "fold update_notified ids rows =
   map (\<lambda>r. if rid r \<in> set ids then r\<lparr>notified := 1\<rparr> else r) rows"
proof (induction ids arbitrary: rows)
  case Nil
  show ?case by simp
next
  case (Cons i ids)
  have "fold update_notified (i # ids) rows = fold update_notified ids (update_notified i rows)"
    by simp
  also have "\<dots> = map (\<lambda>r. if rid r \<in> set ids then r\<lparr>notified := 1\<rparr> else r)
      (update_notified i rows)"
    by (rule Cons.IH)
  also have "\<dots> = map (\<lambda>r. if rid r \<in> set (i # ids) then r\<lparr>notified := 1\<rparr> else r) rows"
    by (auto simp: update_notified_def)
  finally show ?case .
qed

lemma pending_mark_notified:
  "pending (mark_notified ids conn) =
   map (\<lambda>r. if rid r \<in> set ids then r\<lparr>notified := 1\<rparr> else r) (pending conn)"
  by (simp add: mark_notified_def fold_update_notified)

lemma mark_notified_sets:
  "x \<in> set (pending (mark_notified ids conn)) \<Longrightarrow> rid x \<in> set ids \<Longrightarrow> notified x = 1"
  by (auto simp: pending_mark_notified)

lemma rows_kept_refl: "rows_kept s s"
  by (simp add: rows_kept_def row_kept_def)

lemma rows_kept_mark_notified: "rows_kept conn (mark_notified ids conn)"
  by (simp add: rows_kept_def row_kept_def pending_mark_notified)

text \<open>
  Rows of equal \<open>created_at\<close> come by descending id: three pending rows inserted in the
  same second are selected as 3, 2, 1, and a limit of one keeps the row with id 3.
\<close>

lemma select_pending_ties:
  "map rid (select_pending
     \<lparr>pending = [demo_row, demo_row\<lparr>rid := 2, key := ascii ''gh:2''\<rparr>,
                  demo_row\<lparr>rid := 3, key := ascii ''gh:3''\<rparr>], meta = Map.empty\<rparr> 0 50) = [3, 2, 1] \<and>
   map rid (select_pending
     \<lparr>pending = [demo_row, demo_row\<lparr>rid := 2, key := ascii ''gh:2''\<rparr>,
                  demo_row\<lparr>rid := 3, key := ascii ''gh:3''\<rparr>], meta = Map.empty\<rparr> 0 1) = [3]"
  by (simp add: select_pending_def sql_limit_def demo_row_def)

subsection \<open>The phases of digest\<close>

lemma bot_texts_append [simp]: "bot_texts (a @ b) = bot_texts a @ bot_texts b"
  by (induction a rule: bot_texts.induct) simp_all

lemma thread_texts_append [simp]: "thread_texts (a @ b) = thread_texts a @ thread_texts b"
  by (induction a rule: thread_texts.induct) simp_all

lemma webhook_texts_append [simp]: "webhook_texts (a @ b) = webhook_texts a @ webhook_texts b"
  by (induction a rule: webhook_texts.induct) simp_all

lemma csv_files_append [simp]: "csv_files (a @ b) = csv_files a @ csv_files b"
  by (induction a rule: csv_files.induct) simp_all

lemma uploads_append [simp]: "uploads (a @ b) = uploads a @ uploads b"
  by (induction a rule: uploads.induct) simp_all

lemma post_chunks_events:
  "post_chunks env tts i cs = (evs, r) \<Longrightarrow>
   bot_texts evs = [] \<and> webhook_texts evs = [] \<and> csv_files evs = [] \<and> uploads evs = []"
proof (induction cs arbitrary: i evs r)
  case Nil
  then show ?case by simp
next
  case (Cons c cs)
  then show ?case
    by (auto simp: Let_def split: option.splits prod.splits)
qed

lemma primary_phase_posted:
  assumes "primary_phase cfg env msg details = Some (evs, res)"
  shows "webhook_texts evs = [] \<and> csv_files evs = [] \<and> uploads evs = [] \<and>
         (case res of Inr posted \<Rightarrow> posted = bot_accepted env evs
                    | Inl e \<Rightarrow> True)"
  using assms
  by (auto simp: primary_phase_def post_slack_bot_def bot_accepted_def Let_def
      split: if_splits sum.splits option.splits prod.splits dest!: post_chunks_events)

lemma webhook_phase_posted:
  assumes "webhook_phase cfg env msg details posted1 = (evs, res)"
  shows "bot_texts evs = [] \<and> csv_files evs = [] \<and> uploads evs = [] \<and>
         (case res of Inr posted \<Rightarrow> posted = (posted1 \<or> webhook_accepted env evs)
                    | Inl e \<Rightarrow> True) \<and>
         (posted1 \<longrightarrow> evs = [])"
  using assms
  by (auto simp: webhook_phase_def post_slack_webhook_def webhook_accepted_def
      split: if_splits sum.splits prod.splits)

lemma csv_phase_events:
  assumes "csv_phase cfg env rows posted = (evs, r)"
  shows "bot_texts evs = [] \<and> webhook_texts evs = [] \<and> (uploads evs \<noteq> [] \<longrightarrow> posted) \<and>
         (csv_files evs \<noteq> [] \<longrightarrow> WRITE_CSV cfg)"
  using assms
  by (auto simp: csv_phase_def upload_file_to_slack_def
      split: if_splits sum.splits prod.splits)

text \<open>Every way a run of \<open>digest\<close> can end.\<close>

lemma digest_cases [consumes 1, case_names suppressed render_raised primary_raised webhook_raised finished]:
  assumes run: "digest lib cfg env now ov conn = Some (conn', evs, r)"
  obtains
    (suppressed) "int (length (digest_rows cfg now ov conn)) < DIGEST_MIN_COUNT cfg"
      "conn' = conn" "evs = []" "r = None"
  | (render_raised) e where "\<not> int (length (digest_rows cfg now ov conn)) < DIGEST_MIN_COUNT cfg"
      "conn' = conn" "evs = []" "r = Some e"
      "make_digest_text lib cfg (digest_rows cfg now ov conn) (digest_lookback cfg ov) = Inl e"
  | (primary_raised) msg details e where
      "\<not> int (length (digest_rows cfg now ov conn)) < DIGEST_MIN_COUNT cfg"
      "make_digest_text lib cfg (digest_rows cfg now ov conn) (digest_lookback cfg ov) = Inr (msg, details)"
      "primary_phase cfg env msg details = Some (evs, Inl e)" "conn' = conn" "r = Some e"
  | (webhook_raised) msg details ev1 posted1 ev2 e where
      "\<not> int (length (digest_rows cfg now ov conn)) < DIGEST_MIN_COUNT cfg"
      "make_digest_text lib cfg (digest_rows cfg now ov conn) (digest_lookback cfg ov) = Inr (msg, details)"
      "primary_phase cfg env msg details = Some (ev1, Inr posted1)"
      "webhook_phase cfg env msg details posted1 = (ev2, Inl e)"
      "evs = ev1 @ ev2" "conn' = conn" "r = Some e"
  | (finished) msg details ev1 posted1 ev2 posted ev3 where
      "\<not> int (length (digest_rows cfg now ov conn)) < DIGEST_MIN_COUNT cfg"
      "make_digest_text lib cfg (digest_rows cfg now ov conn) (digest_lookback cfg ov) = Inr (msg, details)"
      "primary_phase cfg env msg details = Some (ev1, Inr posted1)"
      "webhook_phase cfg env msg details posted1 = (ev2, Inr posted)"
      "csv_phase cfg env (digest_rows cfg now ov conn) posted = (ev3, r)"
      "evs = ev1 @ ev2 @ ev3"
      "conn' = (if r = None then commit_phase conn (digest_rows cfg now ov conn) posted else conn)"
  using run
  by (auto simp: digest_def Let_def split: if_splits sum.splits option.splits prod.splits)

subsection \<open>What a run of digest does to the store and to the outside\<close>

lemma digest_outcome:
  assumes "digest lib cfg env now ov conn = Some (conn', evs, r)"
  shows "(r = None \<and> accepted env evs \<and>
          conn' = mark_notified (map rid (digest_rows cfg now ov conn)) conn) \<or>
         ((r \<noteq> None \<or> \<not> accepted env evs) \<and> conn' = conn)"
  using assms
proof (cases rule: digest_cases)
  case suppressed
  then show ?thesis by (simp add: accepted_def bot_accepted_def webhook_accepted_def)
next
  case (render_raised e)
  then show ?thesis by simp
next
  case (primary_raised msg details e)
  then show ?thesis by simp
next
  case (webhook_raised msg details ev1 posted1 ev2 e)
  then show ?thesis by simp
next
  case (finished msg details ev1 posted1 ev2 posted ev3)
  have "accepted env evs = posted"
    using primary_phase_posted [OF finished(3)] webhook_phase_posted [OF finished(4)]
      csv_phase_events [OF finished(5)] finished(6)
    by (auto simp: accepted_def bot_accepted_def webhook_accepted_def)
  then show ?thesis using finished(7) by (auto simp: commit_phase_def)
qed

subsection \<open>Three concrete runs\<close>

lemmas demo_defs = plain_lib_def demo_cfg_def demo_row_def demo_store_def demo_text_def
  env_ok_def env_csv_fails_def env_rejected_def

lemmas text_defs = make_digest_text_def digest_head_def bullet_def amount_prefix_def utc_hhmm_def
  two_digits_def counter_def most_common_def str_int_def str_nat.simps startswith_def NL_def

lemma demo_rows: "digest_rows demo_cfg 1000600 None demo_store = [demo_row]"
  by (simp add: digest_rows_def digest_lookback_def select_pending_def sql_limit_def demo_defs)

lemma demo_make: "make_digest_text plain_lib demo_cfg [demo_row] 60 = Inr (demo_text, None)"
  by (simp add: text_defs demo_defs Let_def)

lemma demo_lookback: "digest_lookback demo_cfg None = 60"
  by (simp add: digest_lookback_def demo_cfg_def)

lemma demo_min: "DIGEST_MIN_COUNT demo_cfg = 1"
  by (simp add: demo_cfg_def)

lemma run_ok:
  "digest plain_lib demo_cfg env_ok 1000600 None demo_store =
     Some (mark_notified [1] demo_store,
           [BotPost demo_text, CsvWrite [demo_row] (ascii ''./bounty_csv/bounty_digest_19700112_1356.csv'')],
           None)"
proof -
  have pp: "primary_phase demo_cfg env_ok demo_text None = Some ([BotPost demo_text], Inr True)"
    by (simp add: primary_phase_def post_slack_bot_def truthy_def demo_cfg_def env_ok_def)
  have wp: "webhook_phase demo_cfg env_ok demo_text None True = ([], Inr True)"
    by (simp add: webhook_phase_def)
  have cp: "csv_phase demo_cfg env_ok [demo_row] True =
      ([CsvWrite [demo_row] (ascii ''./bounty_csv/bounty_digest_19700112_1356.csv'')], None)"
    by (simp add: csv_phase_def demo_cfg_def env_ok_def)
  have "rid demo_row = 1" by (simp add: demo_row_def)
  then show ?thesis
    by (simp add: digest_def Let_def demo_rows demo_make demo_lookback demo_min pp wp cp
        commit_phase_def)
qed

lemma run_csv_fails:
  "digest plain_lib demo_cfg env_csv_fails 1000600 None demo_store =
     Some (demo_store, [BotPost demo_text], Some OSError)"
proof -
  have pp: "primary_phase demo_cfg env_csv_fails demo_text None =
      Some ([BotPost demo_text], Inr True)"
    by (simp add: primary_phase_def post_slack_bot_def truthy_def demo_cfg_def env_ok_def
        env_csv_fails_def)
  have wp: "webhook_phase demo_cfg env_csv_fails demo_text None True = ([], Inr True)"
    by (simp add: webhook_phase_def)
  have cp: "csv_phase demo_cfg env_csv_fails [demo_row] True = ([], Some OSError)"
    by (simp add: csv_phase_def demo_cfg_def env_ok_def env_csv_fails_def)
  show ?thesis
    by (simp add: digest_def Let_def demo_rows demo_make demo_lookback demo_min pp wp cp)
qed




lemma accepted_ok:
  "accepted env_ok
     [BotPost demo_text, CsvWrite [demo_row] (ascii ''./bounty_csv/bounty_digest_19700112_1356.csv'')]"
  by (simp add: accepted_def bot_accepted_def env_ok_def)

lemma accepted_csv_fails: "accepted env_csv_fails [BotPost demo_text]"
  by (simp add: accepted_def bot_accepted_def env_ok_def env_csv_fails_def)















subsection \<open>digest returns\<close>

text \<open>
  With a budget of at least one character every run of \<open>digest\<close> ends: the only loop
  that can go on forever is the one of \<open>chunk_text\<close>, and it does so only for a budget
  of zero or less.
\<close>

lemma primary_phase_returns:
  assumes "1 \<le> MAX_SLACK_CHARS cfg"
  shows "\<exists>p. primary_phase cfg env msg details = Some (p :: 'f event list \<times> (exn + bool))"
proof -
  from chunk_text_total [OF assms, of "the details"] obtain cs
    where cs: "chunk_text (the details) (MAX_SLACK_CHARS cfg) = Some cs" by blast
  show ?thesis
    by (simp add: primary_phase_def post_slack_bot_def cs Let_def
        split: sum.splits prod.splits option.splits)
qed

lemma digest_returns:
  assumes "1 \<le> MAX_SLACK_CHARS cfg"
  shows "\<exists>out. digest lib cfg env now ov conn = Some out"
proof (cases "make_digest_text lib cfg (digest_rows cfg now ov conn) (digest_lookback cfg ov)")
  case (Inl e)
  then show ?thesis by (simp add: digest_def Let_def)
next
  case (Inr td)
  obtain msg details where td: "td = (msg, details)" by (cases td)
  from primary_phase_returns [OF assms, of env msg details] obtain p
    where p: "primary_phase cfg env msg details = Some (p :: 'a event list \<times> (exn + bool))"
    by blast
  show ?thesis
    by (simp add: digest_def Let_def Inr td p split: sum.splits prod.splits option.splits)
qed

subsection \<open>Commit on acceptance\<close>

text \<open>
  What a run of \<open>digest\<close> leaves in the store. A run that returns normally
  (\<open>r = None\<close>) after a transport call returned confirmed acceptance has set
  \<open>notified = 1\<close> on the rows whose id is a selected id and changed nothing else. Every
  other run (none accepted, or ended by an exception) leaves the store as it was:
  every selected row is still there with \<open>notified = 0\<close> and is selected again by any
  later selection (same limit) whose window starts at or before its \<open>created_at\<close>.
\<close>

lemma digest_store_after_run:
  assumes "digest lib cfg env now ov conn = Some (conn', evs, r)"
  shows "(r = None \<and> accepted env evs \<longrightarrow>
            conn' = conn\<lparr>pending :=
                      map (\<lambda>x. if rid x \<in> set (map rid (digest_rows cfg now ov conn))
                                then x\<lparr>notified := 1\<rparr> else x) (pending conn)\<rparr> \<and>
            (\<forall>x\<in>set (pending conn').
               rid x \<in> set (map rid (digest_rows cfg now ov conn)) \<longrightarrow> notified x = 1)) \<and>
         (r \<noteq> None \<or> \<not> accepted env evs \<longrightarrow>
            conn' = conn \<and>
            (\<forall>x\<in>set (digest_rows cfg now ov conn).
               x \<in> set (pending conn') \<and> notified x = 0 \<and>
               (\<forall>since'. since' \<le> created_at x \<longrightarrow>
                  x \<in> set (select_pending conn' since' (MAX_ITEMS_IN_DIGEST cfg)))))"
proof (intro conjI impI)
  assume a: "r = None \<and> accepted env evs"
  with digest_outcome [OF assms]
  have c: "conn' = mark_notified (map rid (digest_rows cfg now ov conn)) conn" by auto
  then show "conn' = conn\<lparr>pending :=
      map (\<lambda>x. if rid x \<in> set (map rid (digest_rows cfg now ov conn))
                then x\<lparr>notified := 1\<rparr> else x) (pending conn)\<rparr>"
    by (simp add: mark_notified_def fold_update_notified)
  show "\<forall>x\<in>set (pending conn').
      rid x \<in> set (map rid (digest_rows cfg now ov conn)) \<longrightarrow> notified x = 1"
    unfolding c using mark_notified_sets by blast
next
  assume a: "r \<noteq> None \<or> \<not> accepted env evs"
  with digest_outcome [OF assms] show c: "conn' = conn" by auto
  show "\<forall>x\<in>set (digest_rows cfg now ov conn).
      x \<in> set (pending conn') \<and> notified x = 0 \<and>
      (\<forall>since'. since' \<le> created_at x \<longrightarrow>
         x \<in> set (select_pending conn' since' (MAX_ITEMS_IN_DIGEST cfg)))"
  proof (intro ballI conjI allI impI)
    fix x since'
    assume x: "x \<in> set (digest_rows cfg now ov conn)"
    then have sel: "x \<in> set (select_pending conn (now - digest_lookback cfg ov * 60)
        (MAX_ITEMS_IN_DIGEST cfg))"
      by (simp add: digest_rows_def)
    from select_pending_set [OF sel] show "x \<in> set (pending conn')" "notified x = 0"
      by (simp_all add: c)
    assume "since' \<le> created_at x"
    from select_pending_again [OF sel this]
    show "x \<in> set (select_pending conn' since' (MAX_ITEMS_IN_DIGEST cfg))"
      by (simp add: c)
  qed
qed

text \<open>
  The ids of the table are distinct, as the primary key has it: \<open>upsert_pending\<close>
  gives a new row an id above all others. With distinct ids the rows whose id is a
  selected id are the selected rows themselves, so the update marks exactly those.
\<close>

lemma fold_max_lower: "(a::int) \<le> fold max xs a"
proof (induction xs arbitrary: a)
  case Nil
  show ?case by simp
next
  case (Cons y ys)
  have "a \<le> max y a" by simp
  also have "\<dots> \<le> fold max ys (max y a)" by (rule Cons.IH)
  finally show ?case by simp
qed

lemma fold_max_upper: "x \<in> set xs \<Longrightarrow> (x::int) \<le> fold max xs a"
proof (induction xs arbitrary: a)
  case Nil
  then show ?case by simp
next
  case (Cons y ys)
  show ?case
  proof (cases "x = y")
    case True
    have "y \<le> max y a" by simp
    also have "\<dots> \<le> fold max ys (max y a)" by (rule fold_max_lower)
    finally show ?thesis using True by simp
  next
    case False
    with Cons.prems have "x \<in> set ys" by simp
    from Cons.IH [OF this, of "max y a"] show ?thesis by simp
  qed
qed

lemma next_rowid_fresh: "x \<in> set rows \<Longrightarrow> rid x < next_rowid rows"
proof -
  assume "x \<in> set rows"
  then have "rid x \<in> set (map rid rows)" by simp
  from fold_max_upper [OF this, of 0] show ?thesis by (simp add: next_rowid_def)
qed

lemma upsert_pending_distinct_ids:
  assumes d: "distinct (map rid (pending conn))"
  shows "distinct (map rid (pending (fst (upsert_pending conn now src k ttl u rp labs lang amt cur cat))))"
proof (cases "\<exists>r\<in>set (pending conn). source r = src \<and> key r = k")
  case True
  with d show ?thesis by (simp add: upsert_pending_def)
next
  case False
  have "next_rowid (pending conn) \<notin> rid ` set (pending conn)"
    using next_rowid_fresh [of _ "pending conn"] by force
  with d False show ?thesis by (simp add: upsert_pending_def)
qed

lemma map_rid_mark: "map rid (map (\<lambda>r. if Q r then r\<lparr>notified := 1\<rparr> else r) xs) = map rid xs"
  by (induction xs) simp_all

lemma mark_notified_distinct_ids:
  "distinct (map rid (pending conn)) \<Longrightarrow> distinct (map rid (pending (mark_notified ids conn)))"
  by (simp only: pending_mark_notified map_rid_mark)

lemma digest_marks_selected_rows:
  assumes run: "digest lib cfg env now ov conn = Some (conn', evs, None)"
    and acc: "accepted env evs"
    and ids: "distinct (map rid (pending conn))"
  shows "pending conn' =
     map (\<lambda>x. if x \<in> set (digest_rows cfg now ov conn) then x\<lparr>notified := 1\<rparr> else x)
       (pending conn)"
proof -
  have sub: "set (digest_rows cfg now ov conn) \<subseteq> set (pending conn)"
    using select_pending_set [of _ conn] by (auto simp: digest_rows_def)
  have inj: "inj_on rid (set (pending conn))"
    using ids by (simp add: distinct_map)
  have eq: "rid x \<in> set (map rid (digest_rows cfg now ov conn)) \<longleftrightarrow>
      x \<in> set (digest_rows cfg now ov conn)" if "x \<in> set (pending conn)" for x
  proof
    assume "rid x \<in> set (map rid (digest_rows cfg now ov conn))"
    then obtain y where y: "y \<in> set (digest_rows cfg now ov conn)" "rid y = rid x" by auto
    with sub have "y \<in> set (pending conn)" by blast
    from inj_onD [OF inj y(2) this that] y(1) show "x \<in> set (digest_rows cfg now ov conn)"
      by simp
  next
    assume "x \<in> set (digest_rows cfg now ov conn)"
    then show "rid x \<in> set (map rid (digest_rows cfg now ov conn))" by simp
  qed
  have "map (\<lambda>x. if rid x \<in> set (map rid (digest_rows cfg now ov conn))
        then x\<lparr>notified := 1\<rparr> else x) (pending conn) =
      map (\<lambda>x. if x \<in> set (digest_rows cfg now ov conn) then x\<lparr>notified := 1\<rparr> else x)
        (pending conn)"
    by (rule map_cong [OF refl]) (simp only: eq)
  moreover from digest_store_after_run [OF run] acc
  have "pending conn' = map (\<lambda>x. if rid x \<in> set (map rid (digest_rows cfg now ov conn))
        then x\<lparr>notified := 1\<rparr> else x) (pending conn)"
    by simp
  ultimately show ?thesis by simp
qed

text \<open>
  Claim C1 at a failing input: one pending row, default settings, Slack accepts the
  header post (a transport call returned confirmed acceptance), and \<^verbatim>\<open>write_csv\<close> then
  raises \<^verbatim>\<open>OSError\<close>. The exception ends \<open>digest\<close> before the update: the store is as it
  was, the selected row keeps \<open>notified = 0\<close>, and the next run selects and posts it
  again.
\<close>

theorem digest_commit_skipped_after_acceptance:
  "digest plain_lib demo_cfg env_csv_fails 1000600 None demo_store =
     Some (demo_store, [BotPost demo_text], Some OSError) \<and>
   accepted env_csv_fails [BotPost demo_text] \<and>
   digest_rows demo_cfg 1000600 None demo_store = [demo_row] \<and>
   map notified (pending demo_store) = [0] \<and>
   digest plain_lib demo_cfg env_ok 1000600 None demo_store =
     Some (mark_notified [1] demo_store,
           [BotPost demo_text,
            CsvWrite [demo_row] (ascii ''./bounty_csv/bounty_digest_19700112_1356.csv'')], None)"
  by (simp add: run_csv_fails accepted_csv_fails demo_rows run_ok)
    (simp add: demo_store_def demo_row_def)

subsection \<open>The export file\<close>




subsection \<open>The suppression threshold\<close>

text \<open>
  Claim C7. When the pending rows of the window (\<open>created_at \<ge> now - lookback * 60\<close> and
  \<open>notified = 0\<close>, cut at \<^verbatim>\<open>MAX_ITEMS_IN_DIGEST\<close>) are fewer than \<^verbatim>\<open>DIGEST_MIN_COUNT\<close>, the run
  returns at once: no post, no file, no upload, the store as it was.
\<close>

theorem digest_suppression:
  assumes "int (length (sql_limit (MAX_ITEMS_IN_DIGEST cfg)
                  (filter (\<lambda>x. now - digest_lookback cfg ov * 60 \<le> created_at x \<and> notified x = 0)
                     (pending conn)))) < DIGEST_MIN_COUNT cfg"
  shows "digest lib cfg env now ov conn = Some (conn, [], None)"
proof -
  have "length (digest_rows cfg now ov conn) =
      length (sql_limit (MAX_ITEMS_IN_DIGEST cfg)
        (filter (\<lambda>x. now - digest_lookback cfg ov * 60 \<le> created_at x \<and> notified x = 0)
           (pending conn)))"
    by (simp add: digest_rows_def select_pending_def sql_limit_def)
  with assms show ?thesis by (simp add: digest_def Let_def)
qed

text \<open>
  \<open>digest_suppression\<close> with a minimum of 3 and two pending rows in the window: nothing
  is sent and nothing changes, whatever the outside world would have answered.
\<close>

theorem digest_suppression_witness:
  "int (length (sql_limit (MAX_ITEMS_IN_DIGEST (demo_cfg\<lparr>DIGEST_MIN_COUNT := 3\<rparr>))
          (filter (\<lambda>x. 1000600 - digest_lookback (demo_cfg\<lparr>DIGEST_MIN_COUNT := 3\<rparr>) None * 60
                          \<le> created_at x \<and> notified x = 0)
             (pending (demo_store\<lparr>pending := [demo_row, demo_row\<lparr>rid := 2, key := ascii ''gh:2''\<rparr>]\<rparr>)))))
     = 2 \<and>
   DIGEST_MIN_COUNT (demo_cfg\<lparr>DIGEST_MIN_COUNT := 3\<rparr>) = 3 \<and>
   digest plain_lib (demo_cfg\<lparr>DIGEST_MIN_COUNT := 3\<rparr>) env_ok 1000600 None
     (demo_store\<lparr>pending := [demo_row, demo_row\<lparr>rid := 2, key := ascii ''gh:2''\<rparr>]\<rparr>) =
     Some (demo_store\<lparr>pending := [demo_row, demo_row\<lparr>rid := 2, key := ascii ''gh:2''\<rparr>]\<rparr>, [], None)"
proof -
  have n: "int (length (sql_limit (MAX_ITEMS_IN_DIGEST (demo_cfg\<lparr>DIGEST_MIN_COUNT := 3\<rparr>))
          (filter (\<lambda>x. 1000600 - digest_lookback (demo_cfg\<lparr>DIGEST_MIN_COUNT := 3\<rparr>) None * 60
                          \<le> created_at x \<and> notified x = 0)
             (pending (demo_store\<lparr>pending := [demo_row, demo_row\<lparr>rid := 2, key := ascii ''gh:2''\<rparr>]\<rparr>)))))
     = 2"
    by (simp add: sql_limit_def digest_lookback_def demo_cfg_def demo_row_def)
  have m: "DIGEST_MIN_COUNT (demo_cfg\<lparr>DIGEST_MIN_COUNT := 3\<rparr>) = 3" by simp
  from n m have h: "int (length (sql_limit (MAX_ITEMS_IN_DIGEST (demo_cfg\<lparr>DIGEST_MIN_COUNT := 3\<rparr>))
          (filter (\<lambda>x. 1000600 - digest_lookback (demo_cfg\<lparr>DIGEST_MIN_COUNT := 3\<rparr>) None * 60
                          \<le> created_at x \<and> notified x = 0)
             (pending (demo_store\<lparr>pending := [demo_row, demo_row\<lparr>rid := 2, key := ascii ''gh:2''\<rparr>]\<rparr>)))))
     < DIGEST_MIN_COUNT (demo_cfg\<lparr>DIGEST_MIN_COUNT := 3\<rparr>)"
    by simp
  from digest_suppression [OF h] n m show ?thesis by blast
qed

subsection \<open>The notified flag never goes back\<close>

lemma row_kept_trans: "row_kept a b \<Longrightarrow> row_kept b c \<Longrightarrow> row_kept a c"
  by (auto simp: row_kept_def)

lemma rows_kept_trans:
  assumes "rows_kept a b" "rows_kept b c"
  shows "rows_kept a c"
  unfolding rows_kept_def
proof (intro conjI allI impI)
  show "length (pending a) \<le> length (pending c)"
    using assms by (simp add: rows_kept_def)
  fix i
  assume i: "i < length (pending a)"
  then have "i < length (pending b)" using assms(1) by (simp add: rows_kept_def)
  with i assms show "row_kept (pending a ! i) (pending c ! i)"
    by (auto simp: rows_kept_def intro: row_kept_trans)
qed

lemma rows_kept_same_pending: "pending s' = pending s \<Longrightarrow> rows_kept s s'"
  by (simp add: rows_kept_def row_kept_def)

lemma rows_kept_append: "pending s' = pending s @ new \<Longrightarrow> rows_kept s s'"
  by (simp add: rows_kept_def row_kept_def nth_append)

lemma rows_kept_upsert_pending:
  "rows_kept conn (fst (upsert_pending conn now src k ttl u rp labs lang amt cur cat))"
  by (simp add: upsert_pending_def rows_kept_refl rows_kept_append)

lemma rows_kept_meta_set: "rows_kept conn (meta_set conn k v)"
  by (simp add: meta_set_def rows_kept_same_pending)

lemma rows_kept_digest:
  "digest lib cfg env now ov conn = Some (conn', evs, r) \<Longrightarrow> rows_kept conn conn'"
  using digest_outcome [of lib cfg env now ov conn conn' evs r]
  by (auto simp: rows_kept_refl rows_kept_mark_notified)

lemma pending_ensure_languages:
  "pending (fst (ensure_languages cfg env now conn)) = pending conn"
  by (simp add: ensure_languages_def fetch_and_cache_def meta_set_def Let_def
      split: option.splits json.splits sum.splits)

lemma rows_kept_collect_github:
  "rows_kept conn (fst (collect_github conn items n))"
proof (induction items arbitrary: conn n)
  case Nil
  show ?case by (simp add: rows_kept_refl)
next
  case (Cons p items)
  obtain it t where p: "p = (it, t)" by (cases p)
  show ?case
  proof (cases "gh_id it")
    case None
    then show ?thesis by (simp add: p rows_kept_refl)
  next
    case (Some i)
    show ?thesis
    proof (cases "label_names (gh_labels it)")
      case None
      with Some show ?thesis by (simp add: p rows_kept_refl)
    next
      case labs: (Some labs)
      obtain conn1 b where up: "upsert_pending conn t (ascii ''github'') (ascii ''gh:'' @ str_int i)
          (gh_title it) (gh_html_url it) (repo_of_url (gh_repository_url it)) labs [] None None None
          = (conn1, b)"
        by (cases "upsert_pending conn t (ascii ''github'') (ascii ''gh:'' @ str_int i)
          (gh_title it) (gh_html_url it) (repo_of_url (gh_repository_url it)) labs [] None None None")
      have "rows_kept conn conn1"
        using rows_kept_upsert_pending [of conn t "ascii ''github''" "ascii ''gh:'' @ str_int i"
            "gh_title it" "gh_html_url it" "repo_of_url (gh_repository_url it)" labs "[]" None None None]
        by (simp only: up fst_conv)
      from rows_kept_trans [OF this Cons.IH [of conn1 "if b then n + 1 else n"]]
      show ?thesis using Some labs up by (simp add: p del: ascii_simps)
    qed
  qed
qed

lemma rows_kept_collect_algora:
  "rows_kept conn (fst (collect_algora conn bs n))"
proof (induction bs arbitrary: conn n)
  case Nil
  show ?case by (simp add: rows_kept_refl)
next
  case (Cons p bs)
  obtain b t where p: "p = (b, t)" by (cases p)
  obtain conn1 ins where up: "upsert_pending conn t (al_source b) (al_id b) (al_title b) (al_url b)
      (al_repo b) (al_labels b) [] (al_amount b) (al_currency b) (al_created_at b) = (conn1, ins)"
    by (cases "upsert_pending conn t (al_source b) (al_id b) (al_title b) (al_url b)
      (al_repo b) (al_labels b) [] (al_amount b) (al_currency b) (al_created_at b)")
  have "rows_kept conn conn1"
    using rows_kept_upsert_pending [of conn t "al_source b" "al_id b" "al_title b" "al_url b"
        "al_repo b" "al_labels b" "[]" "al_amount b" "al_currency b" "al_created_at b"]
    by (simp only: up fst_conv)
  from rows_kept_trans [OF this Cons.IH [of conn1 "if ins then n + 1 else n"]]
  show ?case using up by (simp add: p)
qed

lemma rows_kept_collect:
  "rows_kept conn (fst (collect cfg env now sm ia conn))"
proof -
  obtain conn0 res where el: "ensure_languages cfg env now conn = (conn0, res)"
    by (cases "ensure_languages cfg env now conn")
  have k0: "rows_kept conn conn0"
    using pending_ensure_languages [of cfg env now conn] el by (simp add: rows_kept_same_pending)
  show ?thesis
  proof (cases res)
    case (Inl e)
    with el k0 show ?thesis by (simp add: collect_def)
  next
    case (Inr languages)
    let ?minutes = "case sm of None \<Rightarrow> WINDOW_MINUTES cfg
        | Some m \<Rightarrow> if m = 0 then WINDOW_MINUTES cfg else m"
    let ?gh = "case github_search env languages ?minutes of
        Inl e \<Rightarrow> (conn0, 0, Some e) | Inr items \<Rightarrow> collect_github conn0 items 0"
    obtain conn1 gh_new gh_exn where gh: "?gh = (conn1, gh_new, gh_exn)" by (cases ?gh)
    have k1: "rows_kept conn0 conn1"
      using gh rows_kept_collect_github [of conn0 _ 0]
      by (auto simp: rows_kept_refl split: sum.splits) (metis fst_conv)
    have k2: "rows_kept conn1 (fst (collect_algora conn1 bs 0))" for bs
      by (rule rows_kept_collect_algora)
    have "rows_kept conn0 (fst (collect cfg env now sm ia conn))"
      using el Inr gh k1 rows_kept_trans [OF k1 k2]
      by (simp add: collect_def Let_def split: sum.splits)
    with k0 show ?thesis by (rule rows_kept_trans)
  qed
qed

lemma select_pending_not_notified:
  "x \<in> set (select_pending conn since lim) \<Longrightarrow> notified x \<noteq> 1"
  by (drule select_pending_set) simp

lemma rows_kept_notified:
  "rows_kept s s' \<Longrightarrow> i < length (pending s) \<Longrightarrow> notified (pending s ! i) = 1 \<Longrightarrow>
   pending s' ! i = pending s ! i"
  by (auto simp: rows_kept_def row_kept_def)

text \<open>
  Claim C2. Every operation on the store keeps every row in its place and unchanged
  but for \<open>notified\<close>, which it can only set to 1: \<open>upsert_pending\<close>, \<open>meta_set\<close>, a run
  of \<open>digest\<close> (its selection and its commit) and a run of \<open>collect\<close> (with the
  metadata update of \<open>ensure_languages\<close>). So a row with \<open>notified = 1\<close> is the same row
  afterwards. And the selection of \<open>digest\<close> holds no row with \<open>notified = 1\<close>.
\<close>

theorem notified_monotonic:
  "rows_kept conn (fst (upsert_pending conn now src k ttl u rp labs lang amt cur cat)) \<and>
   rows_kept conn (meta_set conn mk mv) \<and>
   (\<forall>conn' evs r. digest lib cfg env dnow ov conn = Some (conn', evs, r) \<longrightarrow> rows_kept conn conn') \<and>
   rows_kept conn (fst (collect cfg cenv cnow sm ia conn)) \<and>
   (\<forall>x\<in>set (select_pending conn since lim). notified x \<noteq> 1) \<and>
   (\<forall>s'. rows_kept conn s' \<longrightarrow>
      (\<forall>i<length (pending conn). notified (pending conn ! i) = 1 \<longrightarrow>
         i < length (pending s') \<and> pending s' ! i = pending conn ! i \<and>
         notified (pending s' ! i) = 1))"
proof (intro conjI allI impI ballI)
  show "rows_kept conn (fst (upsert_pending conn now src k ttl u rp labs lang amt cur cat))"
    by (rule rows_kept_upsert_pending)
  show "rows_kept conn (meta_set conn mk mv)"
    by (rule rows_kept_meta_set)
  show "rows_kept conn (fst (collect cfg cenv cnow sm ia conn))"
    by (rule rows_kept_collect)
next
  fix conn' evs r
  assume "digest lib cfg env dnow ov conn = Some (conn', evs, r)"
  then show "rows_kept conn conn'" by (rule rows_kept_digest)
next
  fix x
  assume "x \<in> set (select_pending conn since lim)"
  then show "notified x \<noteq> 1" by (rule select_pending_not_notified)
next
  fix s' i
  assume k: "rows_kept conn s'" and i: "i < length (pending conn)"
    and n: "notified (pending conn ! i) = 1"
  from k i show "i < length (pending s')" by (simp add: rows_kept_def)
  from rows_kept_notified [OF k i n] show e: "pending s' ! i = pending conn ! i" .
  from e n show "notified (pending s' ! i) = 1" by simp
qed

text \<open>
  \<open>notified_monotonic\<close> on the store left by the accepted run, whose one row has
  \<open>notified = 1\<close>: a later accepted run selects nothing and leaves the row as it is, and
  so does an upsert of another item.
\<close>

theorem notified_monotonic_witness:
  "notified (pending (mark_notified [1] demo_store) ! 0) = 1 \<and>
   0 < length (pending (mark_notified [1] demo_store)) \<and>
   select_pending (mark_notified [1] demo_store) 0 50 = [] \<and>
   digest plain_lib demo_cfg env_ok 1003000 None (mark_notified [1] demo_store) =
     Some (mark_notified [1] demo_store, [], None) \<and>
   rows_kept (mark_notified [1] demo_store) (mark_notified [1] demo_store) \<and>
   notified (pending (fst (upsert_pending (mark_notified [1] demo_store) 1003000 (ascii ''github'')
      (ascii ''gh:2'') (ascii ''Other'') [] [] [] [] None None None)) ! 0) = 1"
proof -
  let ?s = "mark_notified [1] demo_store"
  have p: "pending ?s = [demo_row\<lparr>notified := 1\<rparr>]"
    by (simp add: mark_notified_def update_notified_def demo_store_def demo_row_def)
  have n: "notified (pending ?s ! 0) = 1" "0 < length (pending ?s)"
    by (simp_all add: p)
  have sel: "select_pending ?s 0 50 = []"
    by (simp add: select_pending_def sql_limit_def p)
  have run: "digest plain_lib demo_cfg env_ok 1003000 None ?s = Some (?s, [], None)"
    by (simp add: digest_def digest_rows_def select_pending_def sql_limit_def p demo_min Let_def)
  note m = notified_monotonic [where conn = "?s" and now = 1003000 and src = "ascii ''github''"
      and k = "ascii ''gh:2''" and ttl = "ascii ''Other''" and u = "[]" and rp = "[]" and labs = "[]"
      and lang = "[]" and amt = None and cur = None and cat = None and lib = plain_lib
      and cfg = demo_cfg and env = env_ok and dnow = 1003000 and ov = None]
  from m run have "rows_kept ?s ?s" by blast
  moreover from m n
  have "notified (pending (fst (upsert_pending ?s 1003000 (ascii ''github'')
      (ascii ''gh:2'') (ascii ''Other'') [] [] [] [] None None None)) ! 0) = 1"
    by blast
  ultimately show ?thesis using n sel run by simp
qed

subsection \<open>collect\<close>

lemma collect_github_rows:
  "collect_github conn items n = (conn', n', r) \<Longrightarrow>
   \<exists>new. pending conn' = pending conn @ new \<and>
     (\<forall>x\<in>set new. source x = ascii ''github'' \<and> notified x = 0 \<and>
        (\<exists>p\<in>set items. created_at x = snd p \<and>
           (\<exists>i. gh_id (fst p) = Some i \<and> key x = ascii ''gh:'' @ str_int i)))"
proof (induction items arbitrary: conn n)
  case Nil
  then show ?case by simp
next
  case (Cons p items)
  obtain it t where p: "p = (it, t)" by (cases p)
  show ?case
  proof (cases "gh_id it")
    case None
    with Cons.prems show ?thesis by (simp add: p)
  next
    case (Some i)
    show ?thesis
    proof (cases "label_names (gh_labels it)")
      case None
      with Some Cons.prems show ?thesis by (simp add: p)
    next
      case labs: (Some labs)
      let ?up = "upsert_pending conn t (ascii ''github'') (ascii ''gh:'' @ str_int i)
          (gh_title it) (gh_html_url it) (repo_of_url (gh_repository_url it)) labs [] None None None"
      obtain conn1 b where up: "?up = (conn1, b)" by (cases ?up)
      have first: "\<exists>new1. pending conn1 = pending conn @ new1 \<and>
          (\<forall>x\<in>set new1. source x = ascii ''github'' \<and> notified x = 0 \<and> created_at x = t \<and>
             key x = ascii ''gh:'' @ str_int i)"
      proof (cases "\<exists>r\<in>set (pending conn). source r = ascii ''github'' \<and>
          key r = ascii ''gh:'' @ str_int i")
        case True
        from upsert_pending_present [OF True] up have "conn1 = conn" by (simp del: ascii_simps)
        then show ?thesis by simp
      next
        case False
        from upsert_pending_absent [OF False, of t "gh_title it" "gh_html_url it"
            "repo_of_url (gh_repository_url it)" labs "[]" None None None] up
        obtain x where "conn1 = conn\<lparr>pending := pending conn @ [x]\<rparr>"
          "source x = ascii ''github''" "key x = ascii ''gh:'' @ str_int i" "notified x = 0"
          "created_at x = t"
          by (auto simp del: ascii_simps)
        then show ?thesis by (intro exI [of _ "[x]"]) simp
      qed
      then obtain new1 where new1: "pending conn1 = pending conn @ new1"
        "\<forall>x\<in>set new1. source x = ascii ''github'' \<and> notified x = 0 \<and> created_at x = t \<and>
           key x = ascii ''gh:'' @ str_int i"
        by blast
      have "collect_github conn1 items (if b then n + 1 else n) = (conn', n', r)"
        using Cons.prems Some labs up by (simp add: p del: ascii_simps)
      from Cons.IH [OF this] obtain new2 where new2: "pending conn' = pending conn1 @ new2"
        "\<forall>x\<in>set new2. source x = ascii ''github'' \<and> notified x = 0 \<and>
           (\<exists>p\<in>set items. created_at x = snd p \<and>
              (\<exists>i. gh_id (fst p) = Some i \<and> key x = ascii ''gh:'' @ str_int i))"
        by blast
      have "pending conn' = pending conn @ (new1 @ new2)"
        using new1(1) new2(1) by simp
      moreover have "\<forall>x\<in>set (new1 @ new2). source x = ascii ''github'' \<and> notified x = 0 \<and>
          (\<exists>q\<in>set (p # items). created_at x = snd q \<and>
             (\<exists>i. gh_id (fst q) = Some i \<and> key x = ascii ''gh:'' @ str_int i))"
        using new1(2) new2(2) Some by (auto simp: p simp del: ascii_simps)
      ultimately show ?thesis by blast
    qed
  qed
qed

lemma collect_github_ignores_upstream_time:
  "collect_github conn (map (\<lambda>p. (fst p\<lparr>gh_created_at := other (fst p)\<rparr>, snd p)) items) n =
   collect_github conn items n"
proof (induction items arbitrary: conn n)
  case Nil
  show ?case by simp
next
  case (Cons p items)
  obtain it t where p: "p = (it, t)" by (cases p)
  show ?case
    by (simp add: p Cons.IH del: ascii_simps split: option.splits prod.splits)
qed

text \<open>
  Claim C10. The rows that the GitHub loop of \<open>collect\<close> adds are rows of source
  \<open>github\<close> whose \<open>created_at\<close> is the reading of the clock at their upsert (the item
  \<open>p\<close> comes with that reading, \<open>snd p\<close>); and the issue's own creation time in the
  search result has no influence on the outcome at all.
\<close>

theorem github_rows_created_at_insertion:
  assumes "collect_github conn items n = (conn', n', r)"
  shows "(\<exists>new. pending conn' = pending conn @ new \<and>
            (\<forall>x\<in>set new. source x = ascii ''github'' \<and>
               (\<exists>p\<in>set items. created_at x = snd p \<and>
                  (\<exists>i. gh_id (fst p) = Some i \<and> key x = ascii ''gh:'' @ str_int i)))) \<and>
         collect_github conn
           (map (\<lambda>p. (fst p\<lparr>gh_created_at := other (fst p)\<rparr>, snd p)) items) n = (conn', n', r)"
proof
  from collect_github_rows [OF assms]
  show "\<exists>new. pending conn' = pending conn @ new \<and>
      (\<forall>x\<in>set new. source x = ascii ''github'' \<and>
         (\<exists>p\<in>set items. created_at x = snd p \<and>
            (\<exists>i. gh_id (fst p) = Some i \<and> key x = ascii ''gh:'' @ str_int i)))"
    by blast
  show "collect_github conn
      (map (\<lambda>p. (fst p\<lparr>gh_created_at := other (fst p)\<rparr>, snd p)) items) n = (conn', n', r)"
    using assms by (simp only: collect_github_ignores_upstream_time)
qed

lemma demo_issue_collected:
  "collect_github \<lparr>pending = [] :: int row list, meta = Map.empty\<rparr> [(demo_issue, 1000000)] 0 =
     (\<lparr>pending = [\<lparr>rid = 1, source = ascii ''github'', key = ascii ''gh:7'',
                     title = ascii ''Fix bug'', url = ascii ''https://x/7'', repo = ascii ''o/r'',
                     labels = [ascii ''bounty''], language = [], amount = None, currency = None,
                     created_at = 1000000, notified = 0\<rparr>],
       meta = Map.empty\<rparr>, 1, None)"
  by (simp add: demo_issue_def upsert_pending_def next_rowid_def str_int_def str_nat.simps
      repo_of_url_def startswith_def)

text \<open>
  \<open>github_rows_created_at_insertion\<close> on one issue created upstream in 2020 and upserted
  at time 1000000 into the empty store: the row has \<open>created_at = 1000000\<close>, and so it
  has when the search result gives another creation time.
\<close>

theorem github_rows_created_at_insertion_witness:
  "collect_github \<lparr>pending = [] :: int row list, meta = Map.empty\<rparr> [(demo_issue, 1000000)] 0 =
     (\<lparr>pending = [\<lparr>rid = 1, source = ascii ''github'', key = ascii ''gh:7'',
                     title = ascii ''Fix bug'', url = ascii ''https://x/7'', repo = ascii ''o/r'',
                     labels = [ascii ''bounty''], language = [], amount = None, currency = None,
                     created_at = 1000000, notified = 0\<rparr>],
       meta = Map.empty\<rparr>, 1, None) \<and>
   collect_github \<lparr>pending = [] :: int row list, meta = Map.empty\<rparr>
     (map (\<lambda>p. (fst p\<lparr>gh_created_at := ascii ''1999-12-31T23:59:59Z''\<rparr>, snd p))
        [(demo_issue, 1000000)]) 0 =
     (\<lparr>pending = [\<lparr>rid = 1, source = ascii ''github'', key = ascii ''gh:7'',
                     title = ascii ''Fix bug'', url = ascii ''https://x/7'', repo = ascii ''o/r'',
                     labels = [ascii ''bounty''], language = [], amount = None, currency = None,
                     created_at = 1000000, notified = 0\<rparr>],
       meta = Map.empty\<rparr>, 1, None)"
  using github_rows_created_at_insertion [OF demo_issue_collected,
      of "\<lambda>it. ascii ''1999-12-31T23:59:59Z''"] demo_issue_collected
  by blast

lemma collect_http_error_isolated:
  assumes "USE_PROFILE_LANGS cfg = False"
    and "github_search env (STATIC_LANGUAGES cfg) (WINDOW_MINUTES cfg) = Inl HTTPError"
    and "algora_list env = Inr bs"
  shows "collect cfg env now None True conn =
     (fst (collect_algora conn bs 0), [GitHub, Algora], None)"
  using assms by (simp add: collect_def ensure_languages_def)

text \<open>
  Claim C8 at a failing input: the network is down for the GitHub search, which raises
  \<^verbatim>\<open>ConnectionError\<close>. The handler of the GitHub path catches \<^verbatim>\<open>HTTPError\<close> only, so the
  exception leaves \<open>collect\<close>: Algora, which would have answered, is never called, and
  the main block, which catches \<^verbatim>\<open>KeyboardInterrupt\<close> only, lets the exception end the
  process.
\<close>

theorem collect_github_failure_escapes:
  "collect demo_cfg env_github_down 1000000 None True demo_store =
     (demo_store, [GitHub], Some ConnectionError) \<and>
   main_collect demo_cfg env_github_down 1000000 demo_store =
     (demo_store, [GitHub], Some ConnectionError) \<and>
   algora_list env_github_down = Inr [(demo_bounty, 1000000)]"
  by (simp add: collect_def main_collect_def ensure_languages_def demo_cfg_def env_github_down_def)

subsection \<open>The amount prefix of a bullet\<close>

lemma label_amount_find:
  "label_amount lib labs =
     (case find (\<lambda>lab. startswith lab (ascii ''USD '') \<and> float_of_str lib (drop 4 lab) \<noteq> None) labs of
        Some lab \<Rightarrow> 36 # fmt0 lib (the (float_of_str lib (drop 4 lab)))
      | None \<Rightarrow> [])"
  by (induction labs) (auto simp del: ascii_simps split: option.splits)

text \<open>
  Claim C9, as the code has it. The amount prefix of a bullet is the dollar sign
  followed by the amount formatted with no decimals (\<open>fmt0\<close>): the amount of the column
  \<^verbatim>\<open>amount\<close> when the row has one, and otherwise the amount of the first label that
  starts with \<^verbatim>\<open>"USD "\<close> and whose rest parses as a number; labels with another currency
  code are not read. When neither gives a value the prefix is empty, and the bullet is
  rendered (for every row whose time can be rendered) with the prefix left out.
\<close>

theorem amount_prefix_law:
  "amount_prefix lib r =
     (case amount r of
        Some a \<Rightarrow> 36 # fmt0 lib a
      | None \<Rightarrow>
          (case find (\<lambda>lab. startswith lab (ascii ''USD '') \<and>
                         float_of_str lib (drop 4 lab) \<noteq> None) (labels r) of
             Some lab \<Rightarrow> 36 # fmt0 lib (the (float_of_str lib (drop 4 lab)))
           | None \<Rightarrow> [])) \<and>
   (\<forall>tstr. utc_hhmm (created_at r) = Some tstr \<longrightarrow>
      bullet lib r =
        Inr ([8226, 32] @
             (if amount_prefix lib r = [] then [] else amount_prefix lib r @ [32, 8212, 32]) @
             (if repo r = [] then [] else repo r @ [32, 8212, 32]) @
             title r @ [NL, 32, 32] @ url r @ ascii '' ('' @ tstr @ ascii '')''))"
proof (intro conjI allI impI)
  show "amount_prefix lib r =
     (case amount r of
        Some a \<Rightarrow> 36 # fmt0 lib a
      | None \<Rightarrow>
          (case find (\<lambda>lab. startswith lab (ascii ''USD '') \<and>
                         float_of_str lib (drop 4 lab) \<noteq> None) (labels r) of
             Some lab \<Rightarrow> 36 # fmt0 lib (the (float_of_str lib (drop 4 lab)))
           | None \<Rightarrow> []))"
  proof (cases "amount r")
    case None
    show ?thesis
    proof (cases "labels r = []")
      case True
      with None show ?thesis by (simp add: amount_prefix_def)
    next
      case False
      with None show ?thesis
        by (simp add: amount_prefix_def label_amount_find del: ascii_simps)
    qed
  next
    case (Some a)
    then show ?thesis by (simp add: amount_prefix_def)
  qed
next
  fix tstr
  assume "utc_hhmm (created_at r) = Some tstr"
  then show "bullet lib r =
      Inr ([8226, 32] @
           (if amount_prefix lib r = [] then [] else amount_prefix lib r @ [32, 8212, 32]) @
           (if repo r = [] then [] else repo r @ [32, 8212, 32]) @
           title r @ [NL, 32, 32] @ url r @ ascii '' ('' @ tstr @ ascii '')'')"
    by (simp add: bullet_def Let_def)
qed

lemma demo_hhmm: "utc_hhmm (created_at demo_row) = Some (ascii ''13:46Z'')"
  by (simp add: utc_hhmm_def two_digits_def demo_row_def)

text \<open>
  \<open>amount_prefix_law\<close> on a row without amount whose label is \<^verbatim>\<open>"USD 50"\<close>: the prefix
  is \<^verbatim>\<open>"$50"\<close> and the bullet starts with it.
\<close>

theorem amount_prefix_law_witness:
  "utc_hhmm (created_at (demo_row\<lparr>labels := [ascii ''USD 50'']\<rparr>)) = Some (ascii ''13:46Z'') \<and>
   amount_prefix plain_lib (demo_row\<lparr>labels := [ascii ''USD 50'']\<rparr>) = ascii ''$50'' \<and>
   bullet plain_lib (demo_row\<lparr>labels := [ascii ''USD 50'']\<rparr>) =
     Inr ([8226] @ ascii '' $50 '' @ [8212] @ ascii '' o/r '' @ [8212] @ ascii '' Fix bug'' @ [NL] @
          ascii ''  https://x/1 (13:46Z)'')"
proof -
  let ?r = "demo_row\<lparr>labels := [ascii ''USD 50'']\<rparr>"
  have t: "utc_hhmm (created_at ?r) = Some (ascii ''13:46Z'')"
    using demo_hhmm by simp
  have a: "amount_prefix plain_lib ?r = ascii ''$50''"
    using amount_prefix_law [of plain_lib ?r]
    by (simp add: demo_row_def plain_lib_def parse_hundredths_def fmt_round_def is_digit_def
        digits_val_def startswith_def str_int_def str_nat.simps Let_def)
  have "bullet plain_lib ?r =
      Inr ([8226, 32] @ (if amount_prefix plain_lib ?r = [] then []
                         else amount_prefix plain_lib ?r @ [32, 8212, 32]) @
           (if repo ?r = [] then [] else repo ?r @ [32, 8212, 32]) @
           title ?r @ [NL, 32, 32] @ url ?r @ ascii '' ('' @ ascii ''13:46Z'' @ ascii '')'')"
    using amount_prefix_law [of plain_lib ?r] t by blast
  then have "bullet plain_lib ?r =
     Inr ([8226] @ ascii '' $50 '' @ [8212] @ ascii '' o/r '' @ [8212] @ ascii '' Fix bug'' @ [NL] @
          ascii ''  https://x/1 (13:46Z)'')"
    unfolding a by (simp add: demo_row_def)
  with t a show ?thesis by blast
qed

text \<open>
  Claim C9 as it is stated fails for a currency code other than USD: the label
  \<^verbatim>\<open>"EUR 50"\<close> has the form of a code and an amount, the row has no amount, and the
  bullet has no prefix, while the label \<^verbatim>\<open>"USD 50"\<close> on the same row gives \<^verbatim>\<open>"$50"\<close>.
\<close>

theorem amount_prefix_counterexample:
  "amount_prefix plain_lib (demo_row\<lparr>labels := [ascii ''EUR 50'']\<rparr>) = [] \<and>
   bullet plain_lib (demo_row\<lparr>labels := [ascii ''EUR 50'']\<rparr>) =
     Inr ([8226] @ ascii '' o/r '' @ [8212] @ ascii '' Fix bug'' @ [NL] @
          ascii ''  https://x/1 (13:46Z)'') \<and>
   amount_prefix plain_lib (demo_row\<lparr>labels := [ascii ''USD 50'']\<rparr>) = ascii ''$50''"
  by (simp add: bullet_def amount_prefix_def utc_hhmm_def two_digits_def demo_row_def plain_lib_def
      parse_hundredths_def fmt_round_def is_digit_def digits_val_def startswith_def str_int_def
      str_nat.simps NL_def Let_def)

text \<open>
  The label format that \<^verbatim>\<open>algora_list\<close> writes, and an amount that is rounded: on a row
  without amount the label \<^verbatim>\<open>"USD 50.00"\<close> gives \<^verbatim>\<open>"$50"\<close> and \<^verbatim>\<open>"USD 12.75"\<close> gives
  \<^verbatim>\<open>"$13"\<close>; a label that does not parse is passed over for the next one.
\<close>

lemma amount_prefix_decimal_labels:
  "amount_prefix plain_lib (demo_row\<lparr>labels := [ascii ''USD 50.00'']\<rparr>) = ascii ''$50'' \<and>
   amount_prefix plain_lib (demo_row\<lparr>labels := [ascii ''USD 12.75'']\<rparr>) = ascii ''$13'' \<and>
   amount_prefix plain_lib (demo_row\<lparr>labels := [ascii ''USD tbd'', ascii ''USD 2.5'']\<rparr>) =
     ascii ''$2''"
  by (simp add: amount_prefix_def demo_row_def plain_lib_def parse_hundredths_def fmt_round_def
      is_digit_def digits_val_def startswith_def str_int_def str_nat.simps Let_def)

subsection \<open>The size of the messages\<close>

lemma long_rows: "digest_rows narrow_cfg 1000600 None long_store = [demo_row, long_row]"
  by (simp add: digest_rows_def digest_lookback_def select_pending_def sql_limit_def
      narrow_cfg_def demo_cfg_def long_store_def long_row_def demo_row_def)

lemma long_make:
  "make_digest_text plain_lib narrow_cfg [demo_row, long_row] 60 =
     Inr (long_header, Some long_details)"
  by (simp add: text_defs plain_lib_def narrow_cfg_def demo_cfg_def long_row_def demo_row_def
      long_header_def long_details_def Let_def)

lemma long_chunks:
  "chunk_text long_details 120 =
     Some [take 38 long_details, take 120 (drop 39 long_details), drop 159 long_details]"
  apply (simp add: long_details_def long_row_def demo_row_def NL_def)
  apply (subst chunk_text.simps,
      simp add: rfind_nl_def py_take_def py_drop_def lstrip_def isspace_def NL_def)+
  done

lemma long_primary:
  "primary_phase narrow_cfg env_ok long_header (Some long_details) =
     Some ([BotPost long_header,
            ThreadPost (ascii ''1.5'') (take 38 long_details),
            ThreadPost (ascii ''1.5'') (ascii ''(cont.)'' @ [NL] @ take 120 (drop 39 long_details)),
            ThreadPost (ascii ''1.5'') (ascii ''(cont.)'' @ [NL] @ drop 159 long_details)],
           Inr True)"
proof -
  have ne: "long_details \<noteq> []" by (simp add: long_details_def)
  have cfg: "SLACK_BOT_TOKEN narrow_cfg \<noteq> []" "POST_LONG_AS_THREAD narrow_cfg"
    "MAX_SLACK_CHARS narrow_cfg = 120"
    by (simp_all add: narrow_cfg_def demo_cfg_def)
  have env: "bot_result env_ok = Inr \<lparr>ok = True, ts = Some (ascii ''1.5''), message_ts = None\<rparr>"
    "thread_result env_ok = (\<lambda>i. None)"
    by (simp_all add: env_ok_def)
  have tts: "ascii ''1.5'' \<noteq> []" by simp
  show ?thesis
    using ne cfg tts
    by (simp add: primary_phase_def post_slack_bot_def truthy_def env long_chunks Let_def
        del: ascii_simps)
qed

text \<open>
  Claim C5 at a failing input: a budget of 120 characters and two pending rows, one
  with a title of 150 characters. The header message has 105 characters. The bullets
  are cut into fragments of 38, 120 and 61 characters, all within the budget, but the
  second and third are sent with \<^verbatim>\<open>"(cont.)\n"\<close> in front: the second reply has 128
  characters, 8 more than \<^verbatim>\<open>MAX_SLACK_CHARS\<close>.
\<close>

theorem digest_thread_reply_over_budget:
  "MAX_SLACK_CHARS narrow_cfg = 120 \<and>
   digest plain_lib narrow_cfg env_ok 1000600 None long_store =
     Some (mark_notified [1, 2] long_store,
           [BotPost long_header,
            ThreadPost (ascii ''1.5'') (take 38 long_details),
            ThreadPost (ascii ''1.5'') (ascii ''(cont.)'' @ [NL] @ take 120 (drop 39 long_details)),
            ThreadPost (ascii ''1.5'') (ascii ''(cont.)'' @ [NL] @ drop 159 long_details),
            CsvWrite [demo_row, long_row] (ascii ''./bounty_csv/bounty_digest_19700112_1356.csv'')],
           None) \<and>
   length long_header = 105 \<and>
   length (take 120 (drop 39 long_details)) = 120 \<and>
   length (ascii ''(cont.)'' @ [NL] @ take 120 (drop 39 long_details)) = 128"
proof -
  have cfg: "MAX_SLACK_CHARS narrow_cfg = 120" "DIGEST_MIN_COUNT narrow_cfg = 1"
    "digest_lookback narrow_cfg None = 60"
    by (simp_all add: digest_lookback_def narrow_cfg_def demo_cfg_def)
  have wp: "webhook_phase narrow_cfg env_ok long_header (Some long_details) True = ([], Inr True)"
    by (simp add: webhook_phase_def)
  have cp: "csv_phase narrow_cfg env_ok [demo_row, long_row] True =
      ([CsvWrite [demo_row, long_row] (ascii ''./bounty_csv/bounty_digest_19700112_1356.csv'')], None)"
    by (simp add: csv_phase_def narrow_cfg_def demo_cfg_def env_ok_def)
  have ids: "map rid [demo_row, long_row] = [1, 2]"
    by (simp add: demo_row_def long_row_def)
  have run: "digest plain_lib narrow_cfg env_ok 1000600 None long_store =
     Some (mark_notified [1, 2] long_store,
           [BotPost long_header,
            ThreadPost (ascii ''1.5'') (take 38 long_details),
            ThreadPost (ascii ''1.5'') (ascii ''(cont.)'' @ [NL] @ take 120 (drop 39 long_details)),
            ThreadPost (ascii ''1.5'') (ascii ''(cont.)'' @ [NL] @ drop 159 long_details),
            CsvWrite [demo_row, long_row] (ascii ''./bounty_csv/bounty_digest_19700112_1356.csv'')],
           None)"
    using ids
    by (simp add: digest_def Let_def long_rows long_make cfg long_primary wp cp commit_phase_def
        del: ascii_simps)
  have len: "length long_header = 105" "length long_details = 220"
    by (simp_all add: long_header_def long_details_def long_row_def)
  from run cfg(1) len show ?thesis by simp
qed

text \<open>
  In general, when no reply raises, each reply after the first is its fragment with the
  eight characters of \<^verbatim>\<open>"(cont.)\n"\<close> in front.
\<close>

lemma post_chunks_texts:
  "thread_result env = (\<lambda>i. None) \<Longrightarrow> 0 < i \<Longrightarrow>
   thread_texts (fst (post_chunks env tts i cs :: 'f event list \<times> exn option)) =
     map (\<lambda>c. ascii ''(cont.)'' @ [NL] @ c) cs"
proof (induction cs arbitrary: i)
  case Nil
  show ?case by simp
next
  case (Cons c cs)
  from Cons.IH [OF Cons.prems(1), of "Suc i"] Cons.prems
  show ?case by (auto simp add: Let_def split: prod.splits simp del: ascii_simps)
qed

lemma post_chunks_texts_first:
  "thread_result env = (\<lambda>i. None) \<Longrightarrow>
   thread_texts (fst (post_chunks env tts 0 (c # cs) :: 'f event list \<times> exn option)) =
     c # map (\<lambda>c. ascii ''(cont.)'' @ [NL] @ c) cs"
  using post_chunks_texts [where env = env and i = "Suc 0" and tts = tts and cs = cs and ?'f = 'f]
  by (auto simp add: Let_def split: prod.splits simp del: ascii_simps)

end
